theory Spec2Isabelle
  imports Main "HOL-Library.Multiset"
begin

section \<open>The Glue ingest job (src/health-etl/glue_job_script.py)\<close>

text \<open>
  The script is one linear procedure: resolve the job arguments, take the UTC date, skip
  when a single object key is not a CSV, otherwise read the CSV source, stamp every row
  with the date and append the result to the curated dataset, partitioned by the date.
  The script's own code (argument lookup, the guard, the two paths, the order of the
  calls and the values handed to them) is embedded below as it is written. The calls it
  makes into awsglue and pyspark are outside the repository; each of them is given a
  definition of its own, marked as such, so that the script can be run in the model.
\<close>

subsection \<open>Python strings\<close>

text \<open>
  A Python \<^verbatim>\<open>str\<close> is modelled by its UTF-8 bytes (\<^typ>\<open>string\<close>).
  \<^verbatim>\<open>str.lower\<close> is modelled on the ASCII letters; every byte of a non-ASCII
  character is at least 128 and is left alone. For the guard this loses nothing: the
  only characters that Python lowers to one of \<^verbatim>\<open>.\<close>, \<^verbatim>\<open>c\<close>,
  \<^verbatim>\<open>s\<close>, \<^verbatim>\<open>v\<close> are those four and \<^verbatim>\<open>C\<close>,
  \<^verbatim>\<open>S\<close>, \<^verbatim>\<open>V\<close>.
\<close>

definition lower_char :: "char \<Rightarrow> char" where
  "lower_char c =
     (case map_of (zip ''ABCDEFGHIJKLMNOPQRSTUVWXYZ'' ''abcdefghijklmnopqrstuvwxyz'') c of
        Some l \<Rightarrow> l
      | None \<Rightarrow> c)"

definition lower :: "string \<Rightarrow> string" where
  "lower s = map lower_char s"

definition endswith :: "string \<Rightarrow> string \<Rightarrow> bool" where
  "endswith s suf = (length suf \<le> length s \<and> drop (length s - length suf) s = suf)"

text \<open>
  The spec's wording of the guard's test, written independently of \<^const>\<open>lower\<close>:
  a key ends in \<^verbatim>\<open>.csv\<close> up to letter case when its last four characters are a
  dot, then c or C, then s or S, then v or V.
\<close>

definition is_csv_key :: "string \<Rightarrow> bool" where
  "is_csv_key key =
     (case rev key of
        v # s # c # d # _ \<Rightarrow>
          d = CHR ''.'' \<and> (c = CHR ''c'' \<or> c = CHR ''C'') \<and>
          (s = CHR ''s'' \<or> s = CHR ''S'') \<and> (v = CHR ''v'' \<or> v = CHR ''V'')
      | _ \<Rightarrow> False)"

subsection \<open>Errors, job arguments and the resolved configuration (lines 13 to 23)\<close>

datatype error =
    GlueArgumentError string
  | KeyError string
  | ReadFailure string
  | WriteFailure string

text \<open>
  \<^verbatim>\<open>sys.argv\<close> is modelled by the named job arguments it carries: the value
  given for \<^verbatim>\<open>--NAME\<close>, if any. A Python dict of strings is a map.
\<close>

type_synonym py_dict = "string \<rightharpoonup> string"

text \<open>
  Modelled from the spec: the external argument-resolution mechanism
  (\<^verbatim>\<open>awsglue.utils.getResolvedOptions\<close>, not part of the repository). It is
  handed one flat list of option names and resolves each of them; section 7 (a) of the
  spec: a parameter that is asked for and missing at resolution time is a configuration
  error, raised at once, and the job does not proceed. The library registers every name
  of the list as a required argument. The error carries the first missing name.
\<close>

definition getResolvedOptions :: "py_dict \<Rightarrow> string list \<Rightarrow> error + py_dict" where
  "getResolvedOptions args options =
     (case filter (\<lambda>opt. args opt = None) options of
        [] \<Rightarrow> Inr (restrict_map args (set options))
      | opt # _ \<Rightarrow> Inl (GlueArgumentError opt))"

text \<open>\<^verbatim>\<open>d[k]\<close> raises KeyError on a missing key; \<^verbatim>\<open>d.get(k, default)\<close> does not.\<close>

definition subscript :: "py_dict \<Rightarrow> string \<Rightarrow> error + string" where
  "subscript d k = (case d k of None \<Rightarrow> Inl (KeyError k) | Some v \<Rightarrow> Inr v)"

definition get_default :: "py_dict \<Rightarrow> string \<Rightarrow> string \<Rightarrow> string" where
  "get_default d k dflt = (case d k of None \<Rightarrow> dflt | Some v \<Rightarrow> v)"

record JobConfig =
  RAW_BUCKET :: string
  RAW_PREFIX :: string
  CURATED_BUCKET :: string
  CURATED_PREFIX :: string
  OBJ_KEY :: string

definition resolve_config :: "py_dict \<Rightarrow> error + JobConfig" where
  "resolve_config sys_argv =
     (case getResolvedOptions sys_argv
             [''RAW_BUCKET'', ''RAW_PREFIX'', ''CURATED_BUCKET'', ''CURATED_PREFIX'',
              ''S3_OBJECT_KEY''] of
        Inl e \<Rightarrow> Inl e
      | Inr args \<Rightarrow>
          (case subscript args ''RAW_BUCKET'' of
             Inl e \<Rightarrow> Inl e
           | Inr rb \<Rightarrow>
               (case subscript args ''RAW_PREFIX'' of
                  Inl e \<Rightarrow> Inl e
                | Inr rp \<Rightarrow>
                    (case subscript args ''CURATED_BUCKET'' of
                       Inl e \<Rightarrow> Inl e
                     | Inr cb \<Rightarrow>
                         (case subscript args ''CURATED_PREFIX'' of
                            Inl e \<Rightarrow> Inl e
                          | Inr cp \<Rightarrow>
                              Inr \<lparr>RAW_BUCKET = rb, RAW_PREFIX = rp, CURATED_BUCKET = cb,
                                   CURATED_PREFIX = cp,
                                   OBJ_KEY = get_default args ''S3_OBJECT_KEY'' ''''\<rparr>)))))"

subsection \<open>The ingest date (line 26)\<close>

text \<open>
  The clock is read once. Only the date fields of the UTC instant reach the format
  \<^verbatim>\<open>%Y-%m-%d\<close>: the year in decimal, as many digits as it has (on the job's
  platform a year before 1000 is not padded), then the month and the day, each padded
  to two digits, with dashes between.
\<close>

record datetime =
  year :: nat
  month :: nat
  day :: nat

definition digit :: "nat \<Rightarrow> char" where
  "digit n = ''0123456789'' ! (n mod 10)"

fun decimal :: "nat \<Rightarrow> string" where
  "decimal n = (if n < 10 then [digit n] else decimal (n div 10) @ [digit n])"

declare decimal.simps [simp del]

definition pad2 :: "nat \<Rightarrow> string" where
  "pad2 n = (if n < 10 then CHR ''0'' # decimal n else decimal n)"

definition strftime_Ymd :: "datetime \<Rightarrow> string" where
  "strftime_Ymd d = decimal (year d) @ ''-'' @ pad2 (month d) @ ''-'' @ pad2 (day d)"

text \<open>
  What a clock can show at the start of a job: a year of four digits, a month from 1 to
  12, a day from 1 to 31.
\<close>

definition valid_clock :: "datetime \<Rightarrow> bool" where
  "valid_clock d =
     (1000 \<le> year d \<and> year d \<le> 9999 \<and> 1 \<le> month d \<and> month d \<le> 12 \<and>
      1 \<le> day d \<and> day d \<le> 31)"

text \<open>
  The spec's wording of the date's form, written independently of the formatting above:
  a text is a date YYYY-MM-DD when it is four digits, a dash, two digits, a dash and two
  digits; read in decimal, the three groups are its year, its month and its day.
\<close>

definition digit_val :: "char \<Rightarrow> nat option" where
  "digit_val c = map_of (zip ''0123456789'' [0, 1, 2, 3, 4, 5, 6, 7, 8, 9]) c"

definition read_Ymd :: "string \<Rightarrow> (nat \<times> nat \<times> nat) option" where
  "read_Ymd s =
     (case s of
        [y1, y2, y3, y4, h1, m1, m2, h2, d1, d2] \<Rightarrow>
          (if h1 = CHR ''-'' \<and> h2 = CHR ''-''
           then (case map digit_val [y1, y2, y3, y4, m1, m2, d1, d2] of
                   [Some a, Some b, Some c, Some d, Some e, Some f, Some g, Some h] \<Rightarrow>
                     Some (1000 * a + 100 * b + 10 * c + d, 10 * e + f, 10 * g + h)
                 | _ \<Rightarrow> None)
           else None)
      | _ \<Rightarrow> None)"

subsection \<open>The guard and the two paths (lines 33, 37 and 46)\<close>

definition guard :: "JobConfig \<Rightarrow> bool" where
  "guard cfg = (OBJ_KEY cfg \<noteq> [] \<and> \<not> endswith (lower (OBJ_KEY cfg)) ''.csv'')"

definition src_path :: "JobConfig \<Rightarrow> string" where
  "src_path cfg =
     (if OBJ_KEY cfg \<noteq> [] then ''s3://'' @ RAW_BUCKET cfg @ ''/'' @ OBJ_KEY cfg
      else ''s3://'' @ RAW_BUCKET cfg @ ''/'' @ RAW_PREFIX cfg)"

definition out_path :: "JobConfig \<Rightarrow> string" where
  "out_path cfg = ''s3://'' @ CURATED_BUCKET cfg @ ''/'' @ CURATED_PREFIX cfg"

subsection \<open>Data frames and the engine's operations\<close>

text \<open>
  A data frame is a schema (column names with their types) and rows of cells, one cell
  per column. A cell is the text of its value, or nothing for a null; the type of the
  value is the column's. The order of the rows carries no meaning in the engine; the
  lists below keep it only because a list needs one.
\<close>

datatype dtype =
    StringType | IntegerType | LongType | DoubleType | BooleanType | DateType | TimestampType

type_synonym cell = "string option"

type_synonym column = "string \<times> dtype"

record frame =
  schema :: "column list"
  rows :: "cell list list"

definition wf_frame :: "frame \<Rightarrow> bool" where
  "wf_frame df = list_all (\<lambda>r. length r = length (schema df)) (rows df)"

definition column_names :: "frame \<Rightarrow> string list" where
  "column_names df = map fst (schema df)"

text \<open>
  The session decides when two column names are the same (exactly, or up to letter case,
  by its configuration): a resolver, as in the engine.
\<close>

type_synonym resolver = "string \<Rightarrow> string \<Rightarrow> bool"

text \<open>\<^verbatim>\<open>F.lit(s)\<close> for a Python string: a string column holding \<^verbatim>\<open>s\<close> in every row.\<close>

definition lit :: "string \<Rightarrow> dtype \<times> cell" where
  "lit s = (StringType, Some s)"

text \<open>
  Modelled from the spec: the transform step's engine call
  (\<^verbatim>\<open>pyspark.sql.DataFrame.withColumn\<close>, not part of the repository), here for a
  literal column. Section 4.1: a new column is appended to every row, holding the
  literal. The library documents one more case, which the spec leaves out: a column of
  the frame that already has that name is replaced, where it stands, by the new one.
\<close>

definition withColumn :: "resolver \<Rightarrow> string \<Rightarrow> dtype \<times> cell \<Rightarrow> frame \<Rightarrow> frame" where
  "withColumn res colName col df =
     (if list_ex (\<lambda>c. res (fst c) colName) (schema df)
      then \<lparr>schema = map (\<lambda>c. if res (fst c) colName then (colName, fst col) else c) (schema df),
            rows = map (\<lambda>r. map (\<lambda>(c, v). if res (fst c) colName then snd col else v)
                                  (zip (schema df) r))
                       (rows df)\<rparr>
      else \<lparr>schema = schema df @ [(colName, fst col)],
            rows = map (\<lambda>r. r @ [snd col]) (rows df)\<rparr>)"

text \<open>
  \<^verbatim>\<open>repartition(n)\<close> changes how the engine splits the rows over its tasks, not the
  rows: with one task, one file is written for each partition value.
\<close>

definition repartition :: "nat \<Rightarrow> frame \<Rightarrow> frame" where
  "repartition n df = df"

subsection \<open>The object store\<close>

record csv_options =
  header :: bool
  inferSchema :: bool

text \<open>
  One written file of a partitioned dataset: the partition it lies in (the column and
  its value, which name the subdirectory) and its rows, kept here as they were handed to
  the writer.
\<close>

record part_file =
  partition_col :: string
  partition_val :: cell
  content :: frame

text \<open>
  Modelled from the spec: what the engine finds in the object store (not part of the
  repository). \<^verbatim>\<open>csv_source\<close> is what reading a location as CSV under the given
  options yields: the frame, or the engine's error when the location is unreadable or
  matches no object (section 4.1, Read). \<^verbatim>\<open>write_fault\<close> is the error a write to a
  location meets, if any (section 4.1, Write). \<^verbatim>\<open>datasets\<close> lists the files
  committed under each destination. The sources and the destinations are kept apart: a
  file committed under a destination does not change what a read of a source yields.
\<close>

record world =
  csv_source :: "csv_options \<Rightarrow> string \<Rightarrow> string + frame"
  write_fault :: "string \<Rightarrow> string option"
  datasets :: "string \<Rightarrow> part_file list"

definition read_csv :: "world \<Rightarrow> csv_options \<Rightarrow> string \<Rightarrow> error + frame" where
  "read_csv w opts path =
     (case csv_source w opts path of
        Inl msg \<Rightarrow> Inl (ReadFailure msg)
      | Inr df \<Rightarrow> Inr df)"

datatype save_mode = Append | Overwrite | ErrorIfExists | Ignore

definition partition_key :: "resolver \<Rightarrow> string \<Rightarrow> frame \<Rightarrow> cell list \<Rightarrow> cell" where
  "partition_key res pcol df r =
     (case List.find (\<lambda>(c, v). res (fst c) pcol) (zip (schema df) r) of
        Some (c, v) \<Rightarrow> v
      | None \<Rightarrow> None)"

definition partition_files :: "resolver \<Rightarrow> string \<Rightarrow> frame \<Rightarrow> part_file list" where
  "partition_files res pcol df =
     map (\<lambda>v. \<lparr>partition_col = pcol, partition_val = v,
               content = \<lparr>schema = schema df,
                          rows = filter (\<lambda>r. partition_key res pcol df r = v) (rows df)\<rparr>\<rparr>)
         (remdups (map (partition_key res pcol df) (rows df)))"

text \<open>
  Modelled from the spec: the write step's engine call
  (\<^verbatim>\<open>DataFrameWriter.mode(m).partitionBy(c).parquet(path)\<close>, not part of the
  repository). Section 4.1, Write: the rows are laid out by the value of the partition
  column; under append the files already at the destination stay and the new ones are
  added beside them; an unwritable destination fails the write and nothing new is
  committed. The other save modes are the library's: overwrite replaces what is there,
  error-if-exists refuses a destination that holds files, ignore leaves it as it is.
\<close>

definition write_parquet ::
  "resolver \<Rightarrow> save_mode \<Rightarrow> string \<Rightarrow> string \<Rightarrow> frame \<Rightarrow> world \<Rightarrow> error + world" where
  "write_parquet res mode pcol path df w =
     (if \<not> list_ex (\<lambda>c. res (fst c) pcol) (schema df)
      then Inl (WriteFailure (''partition column not found: '' @ pcol))
      else
        (case write_fault w path of
           Some msg \<Rightarrow> Inl (WriteFailure msg)
         | None \<Rightarrow>
             (case mode of
                Append \<Rightarrow>
                  Inr (w\<lparr>datasets := (datasets w)
                            (path := datasets w path @ partition_files res pcol df)\<rparr>)
              | Overwrite \<Rightarrow>
                  Inr (w\<lparr>datasets := (datasets w)(path := partition_files res pcol df)\<rparr>)
              | ErrorIfExists \<Rightarrow>
                  (if datasets w path = []
                   then Inr (w\<lparr>datasets := (datasets w)(path := partition_files res pcol df)\<rparr>)
                   else Inl (WriteFailure (''path already exists: '' @ path)))
              | Ignore \<Rightarrow>
                  (if datasets w path = []
                   then Inr (w\<lparr>datasets := (datasets w)(path := partition_files res pcol df)\<rparr>)
                   else Inr w))))"

subsection \<open>The job (lines 13 to 55)\<close>

text \<open>
  What a run leaves behind: how it ended, the calls it made on the store and the lines
  it printed, in order, and the store afterwards. A write is recorded with its save mode,
  its partition column, its destination and the frame handed to it. An exception that
  nothing catches ends the process with status 1.
\<close>

datatype event =
    Print string
  | ReadCsv csv_options string
  | WriteParquet save_mode string string frame

datatype outcome = Completed | SysExit int | Raised error

fun exit_status :: "outcome \<Rightarrow> int" where
  "exit_status Completed = 0"
| "exit_status (SysExit n) = n"
| "exit_status (Raised e) = 1"

record run =
  outcome :: outcome
  events :: "event list"
  final :: world

record env =
  sys_argv :: py_dict
  now_utc :: datetime
  session_resolver :: resolver

definition transform :: "resolver \<Rightarrow> string \<Rightarrow> frame \<Rightarrow> frame" where
  "transform res ingest_date df = withColumn res ''ingest_date'' (lit ingest_date) df"

definition job_body :: "env \<Rightarrow> JobConfig \<Rightarrow> world \<Rightarrow> run" where
  "job_body e cfg w =
     (let ingest_date = strftime_Ymd (now_utc e) in
      if guard cfg
      then \<lparr>outcome = SysExit 0,
            events = [Print (''Non-CSV detected ('' @ OBJ_KEY cfg @ ''); skipping.'')],
            final = w\<rparr>
      else
        (let opts = \<lparr>header = True, inferSchema = True\<rparr> in
         case read_csv w opts (src_path cfg) of
           Inl err \<Rightarrow>
             \<lparr>outcome = Raised err, events = [ReadCsv opts (src_path cfg)], final = w\<rparr>
         | Inr df \<Rightarrow>
             (let df2 = transform (session_resolver e) ingest_date df in
              case write_parquet (session_resolver e) Append ''ingest_date'' (out_path cfg)
                     (repartition 1 df2) w of
                Inl err \<Rightarrow>
                  \<lparr>outcome = Raised err,
                   events = [ReadCsv opts (src_path cfg),
                             WriteParquet Append ''ingest_date'' (out_path cfg) df2],
                   final = w\<rparr>
              | Inr w' \<Rightarrow>
                  \<lparr>outcome = Completed,
                   events = [ReadCsv opts (src_path cfg),
                             WriteParquet Append ''ingest_date'' (out_path cfg) df2,
                             Print (''Wrote Parquet to '' @ out_path cfg @ '' partition=''
                                    @ ingest_date)],
                   final = w'\<rparr>)))"

definition job :: "env \<Rightarrow> world \<Rightarrow> run" where
  "job e w =
     (case resolve_config (sys_argv e) of
        Inl err \<Rightarrow> \<lparr>outcome = Raised err, events = [], final = w\<rparr>
      | Inr cfg \<Rightarrow> job_body e cfg w)"

text \<open>The files a run added under a destination: what is there afterwards beyond what was.\<close>

definition written :: "world \<Rightarrow> run \<Rightarrow> string \<Rightarrow> part_file list" where
  "written w r path = drop (length (datasets w path)) (datasets (final r) path)"

definition is_read :: "event \<Rightarrow> bool" where
  "is_read ev = (case ev of ReadCsv opts p \<Rightarrow> True | _ \<Rightarrow> False)"

definition is_write :: "event \<Rightarrow> bool" where
  "is_write ev = (case ev of WriteParquet m c p df \<Rightarrow> True | _ \<Rightarrow> False)"

text \<open>The locations a run read from and wrote to, in order, attempts included.\<close>

definition read_paths :: "event list \<Rightarrow> string list" where
  "read_paths evs = concat (map (\<lambda>ev. case ev of ReadCsv opts p \<Rightarrow> [p] | _ \<Rightarrow> []) evs)"

definition write_paths :: "event list \<Rightarrow> string list" where
  "write_paths evs = concat (map (\<lambda>ev. case ev of WriteParquet m c p df \<Rightarrow> [p] | _ \<Rightarrow> []) evs)"

text \<open>
  Reading a frame by column name: the cells a row holds under the columns of a given
  name, the names of the columns other than ingest_date, and the frame without the
  columns that the session takes for a given name.
\<close>

definition cells_named :: "string \<Rightarrow> frame \<Rightarrow> cell list \<Rightarrow> cell list" where
  "cells_named name df r = map snd (filter (\<lambda>(c, v). fst c = name) (zip (schema df) r))"

definition non_ingest_columns :: "frame \<Rightarrow> string list" where
  "non_ingest_columns df = filter (\<lambda>c. c \<noteq> ''ingest_date'') (column_names df)"

definition drop_column :: "resolver \<Rightarrow> string \<Rightarrow> frame \<Rightarrow> frame" where
  "drop_column res name df =
     \<lparr>schema = filter (\<lambda>c. \<not> res (fst c) name) (schema df),
      rows = map (\<lambda>r. map snd (filter (\<lambda>(c, v). \<not> res (fst c) name) (zip (schema df) r)))
                 (rows df)\<rparr>"

text \<open>A row of the stamped frame, paired with its columns: what the transform makes of a
  source row that has one cell for each column.\<close>

definition stamped_pairs :: "resolver \<Rightarrow> string \<Rightarrow> frame \<Rightarrow> cell list \<Rightarrow> (column \<times> cell) list" where
  "stamped_pairs res d df r =
     (if list_ex (\<lambda>c. res (fst c) ''ingest_date'') (schema df)
      then map (\<lambda>(c, v). if res (fst c) ''ingest_date''
                           then ((''ingest_date'', StringType), Some d) else (c, v))
               (zip (schema df) r)
      else zip (schema df) r @ [((''ingest_date'', StringType), Some d)])"

text \<open>All the rows of a list of files.\<close>

definition file_rows :: "part_file list \<Rightarrow> cell list list" where
  "file_rows fs = concat (map (\<lambda>f. rows (content f)) fs)"

subsection \<open>Concrete invocations\<close>

text \<open>
  The inputs at which the theorems below are exercised: the job arguments with a given
  object key and without one, a source of two rows with the columns id and name, a
  source that already has a column ingest_date and one that has it in capitals, a store
  that holds a frame at the prefix and at an object key and nothing elsewhere, and two
  sessions started on 3 November 2026 (UTC): one compares column names exactly, the
  other up to letter case.
\<close>

definition job_args :: "string \<Rightarrow> py_dict" where
  "job_args key =
     [''RAW_BUCKET'' \<mapsto> ''raw'', ''RAW_PREFIX'' \<mapsto> ''in/'', ''CURATED_BUCKET'' \<mapsto> ''cur'',
      ''CURATED_PREFIX'' \<mapsto> ''out/'', ''S3_OBJECT_KEY'' \<mapsto> key]"

definition resolved_args :: "string \<Rightarrow> JobConfig" where
  "resolved_args key =
     \<lparr>RAW_BUCKET = ''raw'', RAW_PREFIX = ''in/'', CURATED_BUCKET = ''cur'',
      CURATED_PREFIX = ''out/'', OBJ_KEY = key\<rparr>"

definition args_without_key :: py_dict where
  "args_without_key =
     [''RAW_BUCKET'' \<mapsto> ''raw'', ''RAW_PREFIX'' \<mapsto> ''in/'', ''CURATED_BUCKET'' \<mapsto> ''cur'',
      ''CURATED_PREFIX'' \<mapsto> ''out/'']"

definition patients :: frame where
  "patients =
     \<lparr>schema = [(''id'', IntegerType), (''name'', StringType)],
      rows = [[Some ''1'', Some ''ann''], [Some ''2'', Some ''bob'']]\<rparr>"

definition dated_source :: frame where
  "dated_source =
     \<lparr>schema = [(''id'', IntegerType), (''ingest_date'', DateType)],
      rows = [[Some ''1'', Some ''1999-01-01'']]\<rparr>"

definition store :: "frame \<Rightarrow> world" where
  "store df =
     \<lparr>csv_source =
        (\<lambda>opts p. if p = ''s3://raw/in/'' \<or> p = ''s3://raw/drop/file.CSV''
                  then Inr df else Inl (''Path does not exist: '' @ p)),
      write_fault = (\<lambda>p. None),
      datasets = (\<lambda>p. [])\<rparr>"

definition patients_file :: part_file where
  "patients_file =
     \<lparr>partition_col = ''ingest_date'', partition_val = Some ''2026-11-03'',
      content =
        \<lparr>schema = [(''id'', IntegerType), (''name'', StringType), (''ingest_date'', StringType)],
         rows = [[Some ''1'', Some ''ann'', Some ''2026-11-03''],
                 [Some ''2'', Some ''bob'', Some ''2026-11-03'']]\<rparr>\<rparr>"

definition dated_file :: part_file where
  "dated_file =
     \<lparr>partition_col = ''ingest_date'', partition_val = Some ''2026-11-03'',
      content =
        \<lparr>schema = [(''id'', IntegerType), (''ingest_date'', StringType)],
         rows = [[Some ''1'', Some ''2026-11-03'']]\<rparr>\<rparr>"

definition shouting_source :: frame where
  "shouting_source =
     \<lparr>schema = [(''id'', IntegerType), (''INGEST_DATE'', DateType)],
      rows = [[Some ''1'', Some ''1999-01-01'']]\<rparr>"

definition same_name_ci :: resolver where
  "same_name_ci a b = (lower a = lower b)"

definition invocation_ci :: "py_dict \<Rightarrow> env" where
  "invocation_ci args =
     \<lparr>sys_argv = args, now_utc = \<lparr>year = 2026, month = 11, day = 3\<rparr>,
      session_resolver = same_name_ci\<rparr>"

definition invocation :: "py_dict \<Rightarrow> env" where
  "invocation args =
     \<lparr>sys_argv = args, now_utc = \<lparr>year = 2026, month = 11, day = 3\<rparr>,
      session_resolver = (=)\<rparr>"

section \<open>Properties\<close>

subsection \<open>The guard agrees with the spec's wording\<close>

lemma lower_char_dot: "lower_char x = CHR ''.'' \<longleftrightarrow> x = CHR ''.''"
  by (simp add: lower_char_def)

lemma lower_char_c: "lower_char x = CHR ''c'' \<longleftrightarrow> x = CHR ''c'' \<or> x = CHR ''C''"
  by (simp add: lower_char_def)

lemma lower_char_s: "lower_char x = CHR ''s'' \<longleftrightarrow> x = CHR ''s'' \<or> x = CHR ''S''"
  by (simp add: lower_char_def)

lemma lower_char_v: "lower_char x = CHR ''v'' \<longleftrightarrow> x = CHR ''v'' \<or> x = CHR ''V''"
  by (simp add: lower_char_def)

lemma endswith_rev: "endswith s suf \<longleftrightarrow> take (length suf) (rev s) = rev suf"
proof
  assume "endswith s suf"
  then show "take (length suf) (rev s) = rev suf"
    by (simp add: endswith_def take_rev)
next
  assume "take (length suf) (rev s) = rev suf"
  then have d: "drop (length s - length suf) s = suf"
    by (simp add: take_rev)
  then have "length suf = length s - (length s - length suf)"
    by (metis length_drop)
  then have "length suf \<le> length s"
    by arith
  with d show "endswith s suf"
    by (simp add: endswith_def)
qed

lemma endswith_lower_csv: "endswith (lower key) ''.csv'' \<longleftrightarrow> is_csv_key key"
proof -
  have "endswith (lower key) ''.csv'' \<longleftrightarrow>
        take (length ''.csv'') (map lower_char (rev key)) = ''vsc.''"
    by (simp add: endswith_rev lower_def rev_map)
  also have "\<dots> \<longleftrightarrow> is_csv_key key"
    by (auto simp: is_csv_key_def lower_char_dot lower_char_c lower_char_s lower_char_v
        split: list.splits)
  finally show ?thesis .
qed

lemma guard_iff: "guard cfg \<longleftrightarrow> OBJ_KEY cfg \<noteq> [] \<and> \<not> is_csv_key (OBJ_KEY cfg)"
  by (simp add: guard_def endswith_lower_csv)

subsection \<open>The date read back from its text\<close>

lemma digit_val_table:
  assumes "k < 10"
  shows "digit_val (''0123456789'' ! k) = Some k"
proof -
  from assms have "k = 0 \<or> k = 1 \<or> k = 2 \<or> k = 3 \<or> k = 4 \<or> k = 5 \<or> k = 6 \<or> k = 7
      \<or> k = 8 \<or> k = 9"
    by arith
  then show ?thesis
    by (elim disjE) (simp_all add: digit_val_def)
qed

lemma digit_val_digit: "digit_val (digit n) = Some (n mod 10)"
  unfolding digit_def by (rule digit_val_table) simp

lemma decimal_small: "n < 10 \<Longrightarrow> decimal n = [digit n]"
  by (subst decimal.simps) simp

lemma decimal_large: "10 \<le> n \<Longrightarrow> decimal n = decimal (n div 10) @ [digit n]"
  by (subst decimal.simps) simp

lemma decimal_four:
  assumes "1000 \<le> y" and "y \<le> 9999"
  shows "decimal y = [digit (y div 1000), digit (y div 100), digit (y div 10), digit y]"
proof -
  have h: "y div 10 div 10 = y div 100" "y div 100 div 10 = y div 1000"
    by (simp_all add: div_mult2_eq [symmetric])
  have r: "10 \<le> y" "10 \<le> y div 10" "10 \<le> y div 100" "y div 1000 < 10"
    using assms by simp_all
  have a: "decimal y = decimal (y div 10) @ [digit y]"
    using r(1) by (rule decimal_large)
  have b: "decimal (y div 10) = decimal (y div 100) @ [digit (y div 10)]"
    using decimal_large [OF r(2)] by (simp only: h)
  have c: "decimal (y div 100) = decimal (y div 1000) @ [digit (y div 100)]"
    using decimal_large [OF r(3)] by (simp only: h)
  have d: "decimal (y div 1000) = [digit (y div 1000)]"
    using r(4) by (rule decimal_small)
  show ?thesis
    unfolding a b c d by simp
qed

lemma pad2_two:
  assumes "n < 100"
  shows "pad2 n = [digit (n div 10), digit n]"
proof (cases "n < 10")
  case True
  then show ?thesis
    by (simp add: pad2_def decimal_small digit_def)
next
  case False
  then have "decimal n = decimal (n div 10) @ [digit n]"
    by (simp add: decimal_large)
  moreover have "decimal (n div 10) = [digit (n div 10)]"
    using assms by (simp add: decimal_small)
  ultimately show ?thesis
    using False by (simp add: pad2_def)
qed

lemma strftime_Ymd_valid:
  assumes "valid_clock d"
  shows "strftime_Ymd d =
     [digit (year d div 1000), digit (year d div 100), digit (year d div 10), digit (year d),
      CHR ''-'', digit (month d div 10), digit (month d),
      CHR ''-'', digit (day d div 10), digit (day d)]"
  using assms by (simp add: strftime_Ymd_def valid_clock_def decimal_four pad2_two)

lemma two_digits:
  assumes "(n::nat) < 100"
  shows "10 * (n div 10 mod 10) + n mod 10 = n"
proof -
  have "n div 10 < 10" using assms by simp
  then have "n div 10 mod 10 = n div 10" by simp
  then show ?thesis by simp
qed

lemma four_digits:
  assumes "(y::nat) \<le> 9999"
  shows "1000 * (y div 1000 mod 10) + 100 * (y div 100 mod 10) + 10 * (y div 10 mod 10)
           + y mod 10 = y"
proof -
  have h: "y div 10 div 10 = y div 100" "y div 100 div 10 = y div 1000"
    by (simp_all add: div_mult2_eq [symmetric])
  have c: "y div 1000 mod 10 = y div 1000"
    using assms by simp
  have e1: "10 * (y div 10) + y mod 10 = y"
    by simp
  have e2: "10 * (y div 100) + y div 10 mod 10 = y div 10"
    using mult_div_mod_eq [of 10 "y div 10"] by (simp only: h)
  have e3: "10 * (y div 1000) + y div 100 mod 10 = y div 100"
    using mult_div_mod_eq [of 10 "y div 100"] by (simp only: h)
  show ?thesis
    unfolding c using e1 e2 e3 by linarith
qed

text \<open>
  The text the job computes at line 26 is the date of its clock: read as YYYY-MM-DD it
  gives back the clock's year, month and day.
\<close>

lemma read_strftime:
  assumes "valid_clock d"
  shows "read_Ymd (strftime_Ymd d) = Some (year d, month d, day d)"
proof -
  have y: "1000 * (year d div 1000 mod 10) + 100 * (year d div 100 mod 10)
           + 10 * (year d div 10 mod 10) + year d mod 10 = year d"
    using assms by (intro four_digits) (simp add: valid_clock_def)
  have m: "10 * (month d div 10 mod 10) + month d mod 10 = month d"
    using assms by (intro two_digits) (simp add: valid_clock_def)
  have dd: "10 * (day d div 10 mod 10) + day d mod 10 = day d"
    using assms by (intro two_digits) (simp add: valid_clock_def)
  show ?thesis
    unfolding strftime_Ymd_valid [OF assms]
    by (simp add: read_Ymd_def digit_val_digit y m dd)
qed

subsection \<open>Argument resolution\<close>

lemma resolve_config_supplied:
  assumes "args ''RAW_BUCKET'' = Some rb" and "args ''RAW_PREFIX'' = Some rp"
    and "args ''CURATED_BUCKET'' = Some cb" and "args ''CURATED_PREFIX'' = Some cp"
    and "args ''S3_OBJECT_KEY'' = Some key"
  shows "resolve_config args =
           Inr \<lparr>RAW_BUCKET = rb, RAW_PREFIX = rp, CURATED_BUCKET = cb, CURATED_PREFIX = cp,
                OBJ_KEY = key\<rparr>"
  using assms
  by (simp add: resolve_config_def getResolvedOptions_def subscript_def get_default_def)

lemma resolve_config_no_key:
  assumes "args ''S3_OBJECT_KEY'' = None"
  shows "\<exists>n. resolve_config args = Inl (GlueArgumentError n)"
  using assms
  by (auto simp: resolve_config_def getResolvedOptions_def split: list.splits)


lemma resolve_config_iff:
  "resolve_config args = Inr cfg \<longleftrightarrow>
     args ''RAW_BUCKET'' = Some (RAW_BUCKET cfg) \<and> args ''RAW_PREFIX'' = Some (RAW_PREFIX cfg) \<and>
     args ''CURATED_BUCKET'' = Some (CURATED_BUCKET cfg) \<and>
     args ''CURATED_PREFIX'' = Some (CURATED_PREFIX cfg) \<and>
     args ''S3_OBJECT_KEY'' = Some (OBJ_KEY cfg)"
proof
  assume "resolve_config args = Inr cfg"
  then show "args ''RAW_BUCKET'' = Some (RAW_BUCKET cfg) \<and> args ''RAW_PREFIX'' = Some (RAW_PREFIX cfg) \<and>
     args ''CURATED_BUCKET'' = Some (CURATED_BUCKET cfg) \<and>
     args ''CURATED_PREFIX'' = Some (CURATED_PREFIX cfg) \<and>
     args ''S3_OBJECT_KEY'' = Some (OBJ_KEY cfg)"
    by (auto simp: resolve_config_def getResolvedOptions_def subscript_def get_default_def
        split: list.splits if_splits option.splits)
next
  assume "args ''RAW_BUCKET'' = Some (RAW_BUCKET cfg) \<and> args ''RAW_PREFIX'' = Some (RAW_PREFIX cfg) \<and>
     args ''CURATED_BUCKET'' = Some (CURATED_BUCKET cfg) \<and>
     args ''CURATED_PREFIX'' = Some (CURATED_PREFIX cfg) \<and>
     args ''S3_OBJECT_KEY'' = Some (OBJ_KEY cfg)"
  then show "resolve_config args = Inr cfg"
    by (simp add: resolve_config_supplied)
qed

lemma resolve_job_args:
  "resolve_config (sys_argv (invocation (job_args key))) = Inr (resolved_args key)"
  unfolding resolved_args_def
  by (rule resolve_config_supplied) (simp_all add: job_args_def invocation_def)

subsection \<open>The skip path\<close>

text \<open>
  Claim C1. Whenever the parameters resolve and the object key is non-empty and does not
  end in \<^verbatim>\<open>.csv\<close> up to letter case, the run is exactly this: one printed line
  that names the key, exit through \<^verbatim>\<open>sys.exit(0)\<close> with status 0, the store as
  it was, and neither a read nor a write among its events.
\<close>

theorem non_csv_key_skips:
  assumes "resolve_config (sys_argv e) = Inr cfg"
    and "OBJ_KEY cfg \<noteq> []" and "\<not> is_csv_key (OBJ_KEY cfg)"
  shows "job e w =
           \<lparr>outcome = SysExit 0,
            events = [Print (''Non-CSV detected ('' @ OBJ_KEY cfg @ ''); skipping.'')],
            final = w\<rparr> \<and>
         exit_status (outcome (job e w)) = 0 \<and>
         filter is_read (events (job e w)) = [] \<and>
         filter is_write (events (job e w)) = []"
  using assms by (simp add: job_def job_body_def guard_iff is_read_def is_write_def)

theorem non_csv_key_skips_witness:
  "resolve_config (sys_argv (invocation (job_args ''drop/file.json''))) =
     Inr (resolved_args ''drop/file.json'') \<and>
   \<not> is_csv_key ''drop/file.json'' \<and>
   job (invocation (job_args ''drop/file.json'')) (store patients) =
     \<lparr>outcome = SysExit 0,
      events = [Print ''Non-CSV detected (drop/file.json); skipping.''],
      final = store patients\<rparr> \<and>
   exit_status (outcome (job (invocation (job_args ''drop/file.json'')) (store patients))) = 0"
proof -
  let ?cfg = "resolved_args ''drop/file.json''"
  have r: "resolve_config (sys_argv (invocation (job_args ''drop/file.json''))) = Inr ?cfg"
    by (rule resolve_job_args)
  have k: "OBJ_KEY ?cfg \<noteq> []"
    by (simp add: resolved_args_def)
  have n: "\<not> is_csv_key (OBJ_KEY ?cfg)"
    by (simp add: resolved_args_def is_csv_key_def)
  show ?thesis
    using r n non_csv_key_skips [OF r k n, of "store patients"]
    by (simp add: resolved_args_def)
qed

subsection \<open>The engine's operations and the three ways past the guard\<close>

lemma withColumn_has_column:
  assumes "res n n"
  shows "list_ex (\<lambda>c. res (fst c) n) (schema (withColumn res n col df))"
proof (cases "list_ex (\<lambda>c. res (fst c) n) (schema df)")
  case True
  then obtain c where c: "c \<in> set (schema df)" "res (fst c) n"
    by (auto simp: list_ex_iff)
  have s: "schema (withColumn res n col df) =
             map (\<lambda>c. if res (fst c) n then (n, fst col) else c) (schema df)"
    using True by (simp add: withColumn_def)
  have "(n, fst col) \<in> set (schema (withColumn res n col df))"
    unfolding s using c by force
  then show ?thesis
    using assms by (force simp: list_ex_iff)
next
  case False
  then show ?thesis
    using assms by (simp add: withColumn_def)
qed

lemma write_append:
  assumes "list_ex (\<lambda>c. res (fst c) pcol) (schema df)" and "write_fault w path = None"
  shows "write_parquet res Append pcol path df w =
           Inr (w\<lparr>datasets := (datasets w)(path := datasets w path @ partition_files res pcol df)\<rparr>)"
  using assms by (simp add: write_parquet_def)

lemma job_resolved: "resolve_config (sys_argv e) = Inr cfg \<Longrightarrow> job e w = job_body e cfg w"
  by (simp add: job_def)

lemma job_body_read_fails:
  assumes "\<not> guard cfg" and "csv_source w \<lparr>header = True, inferSchema = True\<rparr> (src_path cfg) = Inl msg"
  shows "job_body e cfg w =
           \<lparr>outcome = Raised (ReadFailure msg),
            events = [ReadCsv \<lparr>header = True, inferSchema = True\<rparr> (src_path cfg)],
            final = w\<rparr>"
  using assms by (simp add: job_body_def read_csv_def Let_def)

lemma job_body_write_fails:
  assumes "\<not> guard cfg" and "csv_source w \<lparr>header = True, inferSchema = True\<rparr> (src_path cfg) = Inr df"
    and "write_parquet (session_resolver e) Append ''ingest_date'' (out_path cfg)
           (transform (session_resolver e) (strftime_Ymd (now_utc e)) df) w = Inl err"
  shows "job_body e cfg w =
           \<lparr>outcome = Raised err,
            events = [ReadCsv \<lparr>header = True, inferSchema = True\<rparr> (src_path cfg),
                      WriteParquet Append ''ingest_date'' (out_path cfg)
                        (transform (session_resolver e) (strftime_Ymd (now_utc e)) df)],
            final = w\<rparr>"
  using assms by (simp add: job_body_def read_csv_def repartition_def Let_def)

lemma job_body_written:
  assumes "\<not> guard cfg" and "csv_source w \<lparr>header = True, inferSchema = True\<rparr> (src_path cfg) = Inr df"
    and "write_parquet (session_resolver e) Append ''ingest_date'' (out_path cfg)
           (transform (session_resolver e) (strftime_Ymd (now_utc e)) df) w = Inr w'"
  shows "job_body e cfg w =
           \<lparr>outcome = Completed,
            events = [ReadCsv \<lparr>header = True, inferSchema = True\<rparr> (src_path cfg),
                      WriteParquet Append ''ingest_date'' (out_path cfg)
                        (transform (session_resolver e) (strftime_Ymd (now_utc e)) df),
                      Print (''Wrote Parquet to '' @ out_path cfg @ '' partition=''
                             @ strftime_Ymd (now_utc e))],
            final = w'\<rparr>"
  using assms by (simp add: job_body_def read_csv_def repartition_def Let_def)

subsection \<open>A CSV key in any letter case\<close>

text \<open>
  Claim C9. Whenever the parameters resolve and the object key is non-empty and ends in
  \<^verbatim>\<open>.csv\<close> in any letter case, the guard does not fire and the run is not a skip:
  its first event is the read of \<^verbatim>\<open>s3://<RAW_BUCKET>/<key>\<close>; when that read
  yields a frame, the next event is the append of the transformed frame to the
  destination, partitioned by ingest_date; and when moreover the destination is writable
  (and the session takes a column name to be the same as itself) the run completes with
  the new files added at the destination.
\<close>

theorem csv_key_any_case_proceeds:
  assumes "resolve_config (sys_argv e) = Inr cfg"
    and "OBJ_KEY cfg \<noteq> []" and "is_csv_key (OBJ_KEY cfg)"
  shows "\<not> guard cfg \<and>
         outcome (job e w) \<noteq> SysExit 0 \<and>
         hd (events (job e w)) =
           ReadCsv \<lparr>header = True, inferSchema = True\<rparr>
             (''s3://'' @ RAW_BUCKET cfg @ ''/'' @ OBJ_KEY cfg) \<and>
         (\<forall>df. csv_source w \<lparr>header = True, inferSchema = True\<rparr>
                 (''s3://'' @ RAW_BUCKET cfg @ ''/'' @ OBJ_KEY cfg) = Inr df \<longrightarrow>
               take 2 (events (job e w)) =
                 [ReadCsv \<lparr>header = True, inferSchema = True\<rparr>
                    (''s3://'' @ RAW_BUCKET cfg @ ''/'' @ OBJ_KEY cfg),
                  WriteParquet Append ''ingest_date'' (out_path cfg)
                    (transform (session_resolver e) (strftime_Ymd (now_utc e)) df)] \<and>
               (session_resolver e ''ingest_date'' ''ingest_date'' \<and>
                write_fault w (out_path cfg) = None \<longrightarrow>
                  outcome (job e w) = Completed \<and>
                  datasets (final (job e w)) (out_path cfg) =
                    datasets w (out_path cfg) @
                    partition_files (session_resolver e) ''ingest_date''
                      (transform (session_resolver e) (strftime_Ymd (now_utc e)) df)))"
proof -
  let ?opts = "\<lparr>header = True, inferSchema = True\<rparr>"
  let ?res = "session_resolver e"
  have g: "\<not> guard cfg"
    using assms by (simp add: guard_iff)
  have j: "job e w = job_body e cfg w"
    using assms(1) by (rule job_resolved)
  have src: "src_path cfg = ''s3://'' @ RAW_BUCKET cfg @ ''/'' @ OBJ_KEY cfg"
    using assms(2) by (simp add: src_path_def)
  have not_skip: "outcome (job e w) \<noteq> SysExit 0"
    unfolding j using g
    by (simp add: job_body_def Let_def split: sum.splits)
  have first: "hd (events (job e w)) = ReadCsv ?opts (src_path cfg)"
    unfolding j using g
    by (simp add: job_body_def Let_def split: sum.splits)
  have rest: "take 2 (events (job e w)) =
                 [ReadCsv ?opts (src_path cfg),
                  WriteParquet Append ''ingest_date'' (out_path cfg)
                    (transform ?res (strftime_Ymd (now_utc e)) df)] \<and>
               (?res ''ingest_date'' ''ingest_date'' \<and> write_fault w (out_path cfg) = None \<longrightarrow>
                  outcome (job e w) = Completed \<and>
                  datasets (final (job e w)) (out_path cfg) =
                    datasets w (out_path cfg) @
                    partition_files ?res ''ingest_date''
                      (transform ?res (strftime_Ymd (now_utc e)) df))"
    if rd: "csv_source w ?opts (src_path cfg) = Inr df" for df
  proof -
    let ?df2 = "transform ?res (strftime_Ymd (now_utc e)) df"
    have t: "take 2 (events (job e w)) =
               [ReadCsv ?opts (src_path cfg), WriteParquet Append ''ingest_date'' (out_path cfg) ?df2]"
    proof (cases "write_parquet ?res Append ''ingest_date'' (out_path cfg) ?df2 w")
      case (Inl err)
      show ?thesis
        unfolding j job_body_write_fails [OF g rd Inl] by simp
    next
      case (Inr w')
      show ?thesis
        unfolding j job_body_written [OF g rd Inr] by simp
    qed
    have c: "outcome (job e w) = Completed \<and>
             datasets (final (job e w)) (out_path cfg) =
               datasets w (out_path cfg) @ partition_files ?res ''ingest_date'' ?df2"
      if r: "?res ''ingest_date'' ''ingest_date''" and f: "write_fault w (out_path cfg) = None"
    proof -
      have "list_ex (\<lambda>c. ?res (fst c) ''ingest_date'') (schema ?df2)"
        unfolding transform_def using r by (rule withColumn_has_column)
      then have wr: "write_parquet ?res Append ''ingest_date'' (out_path cfg) ?df2 w =
          Inr (w\<lparr>datasets := (datasets w)(out_path cfg := datasets w (out_path cfg) @
                 partition_files ?res ''ingest_date'' ?df2)\<rparr>)"
        using f by (rule write_append)
      show ?thesis
        unfolding j job_body_written [OF g rd wr] by simp
    qed
    from t c show ?thesis by blast
  qed
  from g not_skip first rest show ?thesis
    unfolding src by blast
qed


theorem csv_key_any_case_proceeds_witness:
  "resolve_config (sys_argv (invocation (job_args ''drop/file.CSV''))) =
     Inr (resolved_args ''drop/file.CSV'') \<and>
   is_csv_key ''drop/file.CSV'' \<and>
   outcome (job (invocation (job_args ''drop/file.CSV'')) (store patients)) = Completed \<and>
   take 2 (events (job (invocation (job_args ''drop/file.CSV'')) (store patients))) =
     [ReadCsv \<lparr>header = True, inferSchema = True\<rparr> ''s3://raw/drop/file.CSV'',
      WriteParquet Append ''ingest_date'' ''s3://cur/out/''
        (transform (=) ''2026-11-03'' patients)]"
proof -
  let ?cfg = "resolved_args ''drop/file.CSV''"
  have r: "resolve_config (sys_argv (invocation (job_args ''drop/file.CSV''))) = Inr ?cfg"
    by (rule resolve_job_args)
  have k: "OBJ_KEY ?cfg \<noteq> []"
    by (simp add: resolved_args_def)
  have c: "is_csv_key (OBJ_KEY ?cfg)"
    by (simp add: resolved_args_def is_csv_key_def)
  have d: "strftime_Ymd (now_utc (invocation a)) = ''2026-11-03''" for a
    by (simp add: invocation_def strftime_Ymd_def pad2_def decimal.simps digit_def)
  show ?thesis
    using r c csv_key_any_case_proceeds [OF r k c, of "store patients"]
    by (simp add: resolved_args_def store_def out_path_def d) (simp add: invocation_def)
qed

subsection \<open>Source and destination\<close>

text \<open>
  Claim C5. For every invocation whose five parameters are supplied, the only location
  read is \<^verbatim>\<open>s3://<RAW_BUCKET>/<S3_OBJECT_KEY>\<close> when the key is non-empty and
  \<^verbatim>\<open>s3://<RAW_BUCKET>/<RAW_PREFIX>\<close> otherwise (a skipped run reads nothing), the
  only location written is \<^verbatim>\<open>s3://<CURATED_BUCKET>/<CURATED_PREFIX>\<close>, and a
  completed run has written there.
\<close>

theorem source_and_destination:
  assumes "sys_argv e ''RAW_BUCKET'' = Some rb" and "sys_argv e ''RAW_PREFIX'' = Some rp"
    and "sys_argv e ''CURATED_BUCKET'' = Some cb" and "sys_argv e ''CURATED_PREFIX'' = Some cp"
    and "sys_argv e ''S3_OBJECT_KEY'' = Some key"
  shows "read_paths (events (job e w)) =
           (if key \<noteq> [] \<and> \<not> is_csv_key key then []
            else if key \<noteq> [] then [''s3://'' @ rb @ ''/'' @ key]
            else [''s3://'' @ rb @ ''/'' @ rp]) \<and>
         set (write_paths (events (job e w))) \<subseteq> {''s3://'' @ cb @ ''/'' @ cp} \<and>
         (outcome (job e w) = Completed \<longrightarrow>
            write_paths (events (job e w)) = [''s3://'' @ cb @ ''/'' @ cp])"
proof -
  let ?cfg = "\<lparr>RAW_BUCKET = rb, RAW_PREFIX = rp, CURATED_BUCKET = cb, CURATED_PREFIX = cp,
                OBJ_KEY = key\<rparr>"
  have r: "resolve_config (sys_argv e) = Inr ?cfg"
    using assms by (rule resolve_config_supplied)
  have j: "job e w = job_body e ?cfg w"
    using r by (rule job_resolved)
  show ?thesis
    unfolding j
    by (simp add: job_body_def guard_iff src_path_def out_path_def read_paths_def
        write_paths_def Let_def split: sum.splits)
qed

theorem source_and_destination_witness:
  "sys_argv (invocation (job_args [])) ''S3_OBJECT_KEY'' = Some [] \<and>
   read_paths (events (job (invocation (job_args [])) (store patients))) = [''s3://raw/in/''] \<and>
   write_paths (events (job (invocation (job_args [])) (store patients))) = [''s3://cur/out/'']"
proof -
  let ?e = "invocation (job_args [])"
  have a: "sys_argv ?e ''RAW_BUCKET'' = Some ''raw''" "sys_argv ?e ''RAW_PREFIX'' = Some ''in/''"
    "sys_argv ?e ''CURATED_BUCKET'' = Some ''cur''" "sys_argv ?e ''CURATED_PREFIX'' = Some ''out/''"
    "sys_argv ?e ''S3_OBJECT_KEY'' = Some []"
    by (simp_all add: invocation_def job_args_def)
  have c: "outcome (job ?e (store patients)) = Completed"
    by (simp add: job_def resolve_job_args job_body_def guard_def resolved_args_def
        src_path_def store_def read_csv_def write_parquet_def transform_def withColumn_def
        lit_def repartition_def patients_def Let_def)
      (simp add: invocation_def)
  show ?thesis
    using a(5) c source_and_destination [OF a, of "store patients"] by simp
qed

subsection \<open>An invocation without the object key\<close>

text \<open>
  Claim C4 says that the object key may be left out and then defaults to the empty
  string. The script asks the resolver for \<^verbatim>\<open>S3_OBJECT_KEY\<close> together with the
  four required names (lines 13 to 17), so an invocation without it ends in the
  resolver's error before line 23, where the default of \<^verbatim>\<open>args.get\<close> would have
  applied: nothing is read, written or printed.
\<close>

theorem absent_object_key_fails:
  assumes "sys_argv e ''S3_OBJECT_KEY'' = None"
  shows "\<exists>n. job e w = \<lparr>outcome = Raised (GlueArgumentError n), events = [], final = w\<rparr>"
proof -
  obtain n where "resolve_config (sys_argv e) = Inl (GlueArgumentError n)"
    using resolve_config_no_key [of "sys_argv e"] assms by blast
  then show ?thesis
    by (simp add: job_def)
qed

theorem absent_object_key_fails_witness:
  "sys_argv (invocation args_without_key) ''S3_OBJECT_KEY'' = None \<and>
   job (invocation args_without_key) (store patients) =
     \<lparr>outcome = Raised (GlueArgumentError ''S3_OBJECT_KEY''), events = [],
      final = store patients\<rparr> \<and>
   exit_status (outcome (job (invocation args_without_key) (store patients))) = 1"
proof -
  have h: "sys_argv (invocation args_without_key) ''S3_OBJECT_KEY'' = None"
    by (simp add: invocation_def args_without_key_def)
  have v: "resolve_config (sys_argv (invocation args_without_key)) =
             Inl (GlueArgumentError ''S3_OBJECT_KEY'')"
    by (simp add: invocation_def args_without_key_def resolve_config_def
        getResolvedOptions_def)
  show ?thesis
    using h v absent_object_key_fails [OF h, of "store patients"]
    by (auto simp: job_def)
qed

subsection \<open>The four ways a run of the job body can go\<close>

lemma job_body_cases:
  obtains
    (skip) "guard cfg"
      "job_body e cfg w =
         \<lparr>outcome = SysExit 0,
          events = [Print (''Non-CSV detected ('' @ OBJ_KEY cfg @ ''); skipping.'')],
          final = w\<rparr>"
  | (read_failed) msg where "\<not> guard cfg"
      "csv_source w \<lparr>header = True, inferSchema = True\<rparr> (src_path cfg) = Inl msg"
      "job_body e cfg w =
         \<lparr>outcome = Raised (ReadFailure msg),
          events = [ReadCsv \<lparr>header = True, inferSchema = True\<rparr> (src_path cfg)],
          final = w\<rparr>"
  | (write_failed) df err where "\<not> guard cfg"
      "csv_source w \<lparr>header = True, inferSchema = True\<rparr> (src_path cfg) = Inr df"
      "write_parquet (session_resolver e) Append ''ingest_date'' (out_path cfg)
         (transform (session_resolver e) (strftime_Ymd (now_utc e)) df) w = Inl err"
      "job_body e cfg w =
         \<lparr>outcome = Raised err,
          events = [ReadCsv \<lparr>header = True, inferSchema = True\<rparr> (src_path cfg),
                    WriteParquet Append ''ingest_date'' (out_path cfg)
                      (transform (session_resolver e) (strftime_Ymd (now_utc e)) df)],
          final = w\<rparr>"
  | (written) df w' where "\<not> guard cfg"
      "csv_source w \<lparr>header = True, inferSchema = True\<rparr> (src_path cfg) = Inr df"
      "write_parquet (session_resolver e) Append ''ingest_date'' (out_path cfg)
         (transform (session_resolver e) (strftime_Ymd (now_utc e)) df) w = Inr w'"
      "job_body e cfg w =
         \<lparr>outcome = Completed,
          events = [ReadCsv \<lparr>header = True, inferSchema = True\<rparr> (src_path cfg),
                    WriteParquet Append ''ingest_date'' (out_path cfg)
                      (transform (session_resolver e) (strftime_Ymd (now_utc e)) df),
                    Print (''Wrote Parquet to '' @ out_path cfg @ '' partition=''
                           @ strftime_Ymd (now_utc e))],
          final = w'\<rparr>"
proof (cases "guard cfg")
  case True
  then show ?thesis
    using skip by (simp add: job_body_def)
next
  case g: False
  show ?thesis
  proof (cases "csv_source w \<lparr>header = True, inferSchema = True\<rparr> (src_path cfg)")
    case (Inl msg)
    then show ?thesis
      using read_failed g job_body_read_fails by blast
  next
    case rd: (Inr df)
    show ?thesis
    proof (cases "write_parquet (session_resolver e) Append ''ingest_date'' (out_path cfg)
         (transform (session_resolver e) (strftime_Ymd (now_utc e)) df) w")
      case (Inl err)
      then show ?thesis
        using write_failed g rd job_body_write_fails by blast
    next
      case (Inr w')
      then show ?thesis
        using written g rd job_body_written by blast
    qed
  qed
qed

lemma write_append_result:
  assumes "write_parquet res Append pcol path df w = Inr w'"
  shows "list_ex (\<lambda>c. res (fst c) pcol) (schema df) \<and> write_fault w path = None \<and>
         w' = w\<lparr>datasets := (datasets w)(path := datasets w path @ partition_files res pcol df)\<rparr>"
  using assms by (auto simp: write_parquet_def split: if_splits option.splits)

text \<open>What a completed run was: the parameters resolved, the guard let it pass, the read
  gave a frame, and the write added the files of the transformed frame.\<close>

lemma completed_run:
  assumes "outcome (job e w) = Completed"
  obtains cfg df where
    "resolve_config (sys_argv e) = Inr cfg"
    "\<not> guard cfg"
    "csv_source w \<lparr>header = True, inferSchema = True\<rparr> (src_path cfg) = Inr df"
    "write_fault w (out_path cfg) = None"
    "list_ex (\<lambda>c. session_resolver e (fst c) ''ingest_date'')
       (schema (transform (session_resolver e) (strftime_Ymd (now_utc e)) df))"
    "final (job e w) =
       w\<lparr>datasets := (datasets w)
            (out_path cfg := datasets w (out_path cfg) @
               partition_files (session_resolver e) ''ingest_date''
                 (transform (session_resolver e) (strftime_Ymd (now_utc e)) df))\<rparr>"
proof (cases "resolve_config (sys_argv e)")
  case (Inl err)
  then show ?thesis
    using assms by (simp add: job_def)
next
  case (Inr cfg)
  then have j: "job e w = job_body e cfg w"
    by (rule job_resolved)
  show ?thesis
  proof (cases e cfg w rule: job_body_cases)
    case skip
    then show ?thesis using assms j by simp
  next
    case (read_failed msg)
    then show ?thesis using assms j by simp
  next
    case (write_failed df err)
    then show ?thesis using assms j by simp
  next
    case (written df w')
    from write_append_result [OF written(3)] written(1,2,4) Inr j that
    show ?thesis by simp
  qed
qed

lemma written_completed:
  assumes "resolve_config (sys_argv e) = Inr cfg" and "outcome (job e w) = Completed"
    and "csv_source w \<lparr>header = True, inferSchema = True\<rparr> (src_path cfg) = Inr df"
  shows "written w (job e w) p =
           (if p = out_path cfg
            then partition_files (session_resolver e) ''ingest_date''
                   (transform (session_resolver e) (strftime_Ymd (now_utc e)) df)
            else [])"
proof -
  from assms(2) obtain cfg' df' where
    c: "resolve_config (sys_argv e) = Inr cfg'"
      "csv_source w \<lparr>header = True, inferSchema = True\<rparr> (src_path cfg') = Inr df'"
      "final (job e w) =
       w\<lparr>datasets := (datasets w)
            (out_path cfg' := datasets w (out_path cfg') @
               partition_files (session_resolver e) ''ingest_date''
                 (transform (session_resolver e) (strftime_Ymd (now_utc e)) df'))\<rparr>"
    by (rule completed_run)
  from c(1) assms(1) have "cfg' = cfg" by simp
  with c(2) assms(3) have "df' = df" by simp
  show ?thesis
    unfolding written_def c(3) \<open>cfg' = cfg\<close> \<open>df' = df\<close> by simp
qed

subsection \<open>The concrete invocations, run\<close>

lemma today: "strftime_Ymd (now_utc (invocation a)) = ''2026-11-03''"
  by (simp add: invocation_def strftime_Ymd_def pad2_def decimal.simps digit_def)

lemma stamped_patients: "transform (=) ''2026-11-03'' patients = content patients_file"
  by (simp add: transform_def withColumn_def lit_def patients_def patients_file_def)

lemma files_of_patients:
  "partition_files (=) ''ingest_date'' (content patients_file) = [patients_file]"
  by (simp add: partition_files_def partition_key_def patients_file_def)

lemma prefix_run:
  assumes "write_fault w ''s3://cur/out/'' = None"
    and "csv_source w \<lparr>header = True, inferSchema = True\<rparr> ''s3://raw/in/'' = Inr patients"
  shows "job (invocation (job_args [])) w =
     \<lparr>outcome = Completed,
      events = [ReadCsv \<lparr>header = True, inferSchema = True\<rparr> ''s3://raw/in/'',
                WriteParquet Append ''ingest_date'' ''s3://cur/out/'' (content patients_file),
                Print ''Wrote Parquet to s3://cur/out/ partition=2026-11-03''],
      final = w\<lparr>datasets := (datasets w)
                 (''s3://cur/out/'' := datasets w ''s3://cur/out/'' @ [patients_file])\<rparr>\<rparr>"
proof -
  let ?e = "invocation (job_args [])"
  let ?cfg = "resolved_args []"
  have r: "resolve_config (sys_argv ?e) = Inr ?cfg"
    by (rule resolve_job_args)
  have g: "\<not> guard ?cfg"
    by (simp add: guard_def resolved_args_def)
  have s: "src_path ?cfg = ''s3://raw/in/''" and o: "out_path ?cfg = ''s3://cur/out/''"
    by (simp_all add: src_path_def out_path_def resolved_args_def)
  have res: "session_resolver ?e = (=)"
    by (simp add: invocation_def)
  have rd: "csv_source w \<lparr>header = True, inferSchema = True\<rparr> (src_path ?cfg) = Inr patients"
    using assms(2) by (simp add: s)
  have wr: "write_parquet (session_resolver ?e) Append ''ingest_date'' (out_path ?cfg)
         (transform (session_resolver ?e) (strftime_Ymd (now_utc ?e)) patients) w =
        Inr (w\<lparr>datasets := (datasets w)
                 (''s3://cur/out/'' := datasets w ''s3://cur/out/'' @ [patients_file])\<rparr>)"
  proof -
    have lx: "list_ex (\<lambda>c. fst c = ''ingest_date'') (schema (content patients_file))"
      by (simp add: patients_file_def)
    show ?thesis
      unfolding res today stamped_patients o
      using write_append [of "(=)" "''ingest_date''" "content patients_file" w "''s3://cur/out/''"]
        lx assms(1)
      by (simp add: files_of_patients)
  qed
  show ?thesis
    unfolding job_resolved [OF r] job_body_written [OF g rd wr]
    by (simp add: s o today res stamped_patients)
qed


lemma first_run:
  "job (invocation (job_args [])) (store patients) =
     \<lparr>outcome = Completed,
      events = [ReadCsv \<lparr>header = True, inferSchema = True\<rparr> ''s3://raw/in/'',
                WriteParquet Append ''ingest_date'' ''s3://cur/out/'' (content patients_file),
                Print ''Wrote Parquet to s3://cur/out/ partition=2026-11-03''],
      final = (store patients)\<lparr>datasets := (\<lambda>p. [])(''s3://cur/out/'' := [patients_file])\<rparr>\<rparr>"
proof -
  have "write_fault (store patients) ''s3://cur/out/'' = None"
    and "csv_source (store patients) \<lparr>header = True, inferSchema = True\<rparr> ''s3://raw/in/'' =
           Inr patients"
    by (simp_all add: store_def)
  then show ?thesis
    by (simp add: prefix_run) (simp add: store_def)
qed

lemma second_run:
  "job (invocation (job_args []))
       ((store patients)\<lparr>datasets := (\<lambda>p. [])(''s3://cur/out/'' := [patients_file])\<rparr>) =
     \<lparr>outcome = Completed,
      events = [ReadCsv \<lparr>header = True, inferSchema = True\<rparr> ''s3://raw/in/'',
                WriteParquet Append ''ingest_date'' ''s3://cur/out/'' (content patients_file),
                Print ''Wrote Parquet to s3://cur/out/ partition=2026-11-03''],
      final = (store patients)
                \<lparr>datasets := (\<lambda>p. [])(''s3://cur/out/'' := [patients_file, patients_file])\<rparr>\<rparr>"
proof -
  let ?w = "(store patients)\<lparr>datasets := (\<lambda>p. [])(''s3://cur/out/'' := [patients_file])\<rparr>"
  have "write_fault ?w ''s3://cur/out/'' = None"
    and "csv_source ?w \<lparr>header = True, inferSchema = True\<rparr> ''s3://raw/in/'' = Inr patients"
    by (simp_all add: store_def)
  then show ?thesis
    by (simp add: prefix_run)
qed

subsection \<open>An unreadable source\<close>

text \<open>
  Claim C7, as amended. For every invocation that gets past the guard (the parameters
  resolve and the object key is empty or ends in \<^verbatim>\<open>.csv\<close> up to letter case) and
  whose source location is unreadable or matches no object, the read fails, the run ends
  with the engine's error, unchanged and uncaught, and a non-zero status, the source was
  read once, nothing was written and the store is as it was.
\<close>

theorem unreadable_source_fails:
  assumes "resolve_config (sys_argv e) = Inr cfg"
    and "OBJ_KEY cfg = [] \<or> is_csv_key (OBJ_KEY cfg)"
    and "csv_source w \<lparr>header = True, inferSchema = True\<rparr> (src_path cfg) = Inl msg"
  shows "job e w =
           \<lparr>outcome = Raised (ReadFailure msg),
            events = [ReadCsv \<lparr>header = True, inferSchema = True\<rparr> (src_path cfg)],
            final = w\<rparr> \<and>
         exit_status (outcome (job e w)) \<noteq> 0 \<and>
         read_paths (events (job e w)) = [src_path cfg] \<and>
         write_paths (events (job e w)) = []"
proof -
  have g: "\<not> guard cfg"
    using assms(2) by (auto simp: guard_iff)
  show ?thesis
    unfolding job_resolved [OF assms(1)] job_body_read_fails [OF g assms(3)]
    by (simp add: read_paths_def write_paths_def)
qed

theorem unreadable_source_fails_witness:
  "resolve_config (sys_argv (invocation (job_args ''drop/other.csv''))) =
     Inr (resolved_args ''drop/other.csv'') \<and>
   is_csv_key ''drop/other.csv'' \<and>
   csv_source (store patients) \<lparr>header = True, inferSchema = True\<rparr> ''s3://raw/drop/other.csv'' =
     Inl ''Path does not exist: s3://raw/drop/other.csv'' \<and>
   job (invocation (job_args ''drop/other.csv'')) (store patients) =
     \<lparr>outcome = Raised (ReadFailure ''Path does not exist: s3://raw/drop/other.csv''),
      events = [ReadCsv \<lparr>header = True, inferSchema = True\<rparr> ''s3://raw/drop/other.csv''],
      final = store patients\<rparr> \<and>
   exit_status (outcome (job (invocation (job_args ''drop/other.csv'')) (store patients))) = 1"
proof -
  let ?cfg = "resolved_args ''drop/other.csv''"
  have r: "resolve_config (sys_argv (invocation (job_args ''drop/other.csv''))) = Inr ?cfg"
    by (rule resolve_job_args)
  have c: "is_csv_key ''drop/other.csv''"
    by (simp add: is_csv_key_def)
  then have k: "OBJ_KEY ?cfg = [] \<or> is_csv_key (OBJ_KEY ?cfg)"
    by (simp add: resolved_args_def)
  have s: "src_path ?cfg = ''s3://raw/drop/other.csv''"
    by (simp add: src_path_def resolved_args_def)
  have u: "csv_source (store patients) \<lparr>header = True, inferSchema = True\<rparr> (src_path ?cfg) =
             Inl ''Path does not exist: s3://raw/drop/other.csv''"
    unfolding s by (simp add: store_def)
  show ?thesis
    using r c u unreadable_source_fails [OF r k u]
    by (simp add: s)
qed

text \<open>
  The claim as it is written covers every invocation. With the object key
  \<^verbatim>\<open>drop/file.json\<close> the source location \<^verbatim>\<open>s3://raw/drop/file.json\<close> is
  unreadable in the store below, and the run ends with status 0 without a read: the
  guard comes first (lines 33 to 35).
\<close>

theorem unreadable_source_skipped:
  "resolve_config (sys_argv (invocation (job_args ''drop/file.json''))) =
     Inr (resolved_args ''drop/file.json'') \<and>
   src_path (resolved_args ''drop/file.json'') = ''s3://raw/drop/file.json'' \<and>
   csv_source (store patients) \<lparr>header = True, inferSchema = True\<rparr> ''s3://raw/drop/file.json'' =
     Inl ''Path does not exist: s3://raw/drop/file.json'' \<and>
   outcome (job (invocation (job_args ''drop/file.json'')) (store patients)) = SysExit 0 \<and>
   exit_status (outcome (job (invocation (job_args ''drop/file.json'')) (store patients))) = 0 \<and>
   read_paths (events (job (invocation (job_args ''drop/file.json'')) (store patients))) = []"
proof -
  let ?cfg = "resolved_args ''drop/file.json''"
  have r: "resolve_config (sys_argv (invocation (job_args ''drop/file.json''))) = Inr ?cfg"
    by (rule resolve_job_args)
  have g: "guard ?cfg"
    by (simp add: guard_iff resolved_args_def is_csv_key_def)
  have j: "job (invocation (job_args ''drop/file.json'')) (store patients) =
             \<lparr>outcome = SysExit 0,
              events = [Print (''Non-CSV detected ('' @ OBJ_KEY ?cfg @ ''); skipping.'')],
              final = store patients\<rparr>"
    unfolding job_resolved [OF r] using g by (simp add: job_body_def)
  show ?thesis
    unfolding j using r
    by (simp add: read_paths_def src_path_def resolved_args_def store_def)
qed

subsection \<open>Appending\<close>

text \<open>
  Claim C6. For every successful run, every destination holds afterwards what it held
  before, in place, followed by the files the run added there; only the job's
  destination gained files; the sources and the destinations' writability are as they
  were. The concrete run below starts from a destination that already holds a file of
  the partition of the same date.
\<close>

theorem append_keeps_existing_data:
  assumes "resolve_config (sys_argv e) = Inr cfg" and "outcome (job e w) = Completed"
  shows "(\<forall>p. datasets (final (job e w)) p = datasets w p @ written w (job e w) p) \<and>
         (\<forall>p. p \<noteq> out_path cfg \<longrightarrow> datasets (final (job e w)) p = datasets w p) \<and>
         csv_source (final (job e w)) = csv_source w \<and>
         write_fault (final (job e w)) = write_fault w"
proof -
  from assms(2) obtain cfg' df where
    c: "resolve_config (sys_argv e) = Inr cfg'"
      "final (job e w) =
       w\<lparr>datasets := (datasets w)
            (out_path cfg' := datasets w (out_path cfg') @
               partition_files (session_resolver e) ''ingest_date''
                 (transform (session_resolver e) (strftime_Ymd (now_utc e)) df))\<rparr>"
    by (rule completed_run)
  from c(1) assms(1) have "cfg' = cfg" by simp
  show ?thesis
    unfolding written_def c(2) \<open>cfg' = cfg\<close> by simp
qed

theorem append_keeps_existing_data_witness:
  "resolve_config (sys_argv (invocation (job_args []))) = Inr (resolved_args []) \<and>
   datasets (final (job (invocation (job_args [])) (store patients))) ''s3://cur/out/'' =
     [patients_file] \<and>
   outcome (job (invocation (job_args []))
              (final (job (invocation (job_args [])) (store patients)))) = Completed \<and>
   datasets (final (job (invocation (job_args []))
                      (final (job (invocation (job_args [])) (store patients)))))
            ''s3://cur/out/'' =
     [patients_file, patients_file]"
proof -
  let ?e = "invocation (job_args [])"
  let ?w1 = "final (job ?e (store patients))"
  have r: "resolve_config (sys_argv ?e) = Inr (resolved_args [])"
    by (rule resolve_job_args)
  have d: "datasets ?w1 ''s3://cur/out/'' = [patients_file]"
    by (simp add: first_run)
  have c: "outcome (job ?e ?w1) = Completed"
    by (simp add: first_run second_run)
  show ?thesis
    using r d c append_keeps_existing_data [OF r c] by (simp add: first_run second_run)
qed

subsection \<open>The files of a frame hold its rows\<close>

lemma mset_filter_split:
  assumes "\<And>x. x \<in> set xs \<Longrightarrow> \<not> (P x \<and> Q x)"
  shows "mset (filter P xs) + mset (filter Q xs) = mset (filter (\<lambda>x. P x \<or> Q x) xs)"
  using assms by (induction xs) auto

lemma mset_concat_groups:
  assumes "distinct vs"
  shows "mset (concat (map (\<lambda>v. filter (\<lambda>r. f r = v) xs) vs)) =
         mset (filter (\<lambda>r. f r \<in> set vs) xs)"
  using assms
proof (induction vs)
  case Nil
  then show ?case by simp
next
  case (Cons v vs)
  have "mset (filter (\<lambda>r. f r = v) xs) + mset (filter (\<lambda>r. f r \<in> set vs) xs) =
        mset (filter (\<lambda>r. f r = v \<or> f r \<in> set vs) xs)"
    using Cons.prems by (intro mset_filter_split) auto
  with Cons show ?case
    by (simp add: disj_commute eq_commute)
qed

lemma file_rows_partition_files:
  "mset (file_rows (partition_files res pcol df)) = mset (rows df)"
proof -
  let ?f = "partition_key res pcol df"
  have "file_rows (partition_files res pcol df) =
        concat (map (\<lambda>v. filter (\<lambda>r. ?f r = v) (rows df)) (remdups (map ?f (rows df))))"
    by (simp add: file_rows_def partition_files_def comp_def)
  also have "mset \<dots> = mset (filter (\<lambda>r. ?f r \<in> set (remdups (map ?f (rows df)))) (rows df))"
    by (rule mset_concat_groups) simp
  also have "\<dots> = mset (rows df)"
    by simp
  finally show ?thesis .
qed

lemma partition_files_empty: "partition_files res pcol df = [] \<longleftrightarrow> rows df = []"
  by (simp add: partition_files_def)

lemma rows_transform: "length (rows (transform res d df)) = length (rows df)"
  by (simp add: transform_def withColumn_def)


subsection \<open>Running the job twice\<close>

text \<open>
  Claim C8. When a run on a source, a destination and a date has completed, the same
  run on the store it left completes too and adds the same files once more: the
  destination then holds what it held at first followed by two copies of the run's
  files, and these files hold exactly the stamped source rows, as many as the source
  has. With at least one source row the second run changes the destination: the job is
  not idempotent.
\<close>

theorem second_run_appends_duplicates:
  assumes "resolve_config (sys_argv e) = Inr cfg" and "outcome (job e w) = Completed"
    and "csv_source w \<lparr>header = True, inferSchema = True\<rparr> (src_path cfg) = Inr df"
  shows "outcome (job e (final (job e w))) = Completed \<and>
         written (final (job e w)) (job e (final (job e w))) (out_path cfg) =
           written w (job e w) (out_path cfg) \<and>
         datasets (final (job e (final (job e w)))) (out_path cfg) =
           datasets w (out_path cfg) @ written w (job e w) (out_path cfg)
             @ written w (job e w) (out_path cfg) \<and>
         mset (file_rows (written w (job e w) (out_path cfg))) =
           mset (rows (transform (session_resolver e) (strftime_Ymd (now_utc e)) df)) \<and>
         length (rows (transform (session_resolver e) (strftime_Ymd (now_utc e)) df)) =
           length (rows df) \<and>
         (rows df \<noteq> [] \<longrightarrow>
            written w (job e w) (out_path cfg) \<noteq> [] \<and>
            datasets (final (job e (final (job e w)))) (out_path cfg) \<noteq>
              datasets (final (job e w)) (out_path cfg))"
proof -
  let ?opts = "\<lparr>header = True, inferSchema = True\<rparr>"
  let ?res = "session_resolver e"
  let ?df2 = "transform ?res (strftime_Ymd (now_utc e)) df"
  let ?new = "partition_files ?res ''ingest_date'' ?df2"
  let ?out = "out_path cfg"
  let ?w1 = "w\<lparr>datasets := (datasets w)(?out := datasets w ?out @ ?new)\<rparr>"
  let ?w2 = "?w1\<lparr>datasets := (datasets ?w1)(?out := datasets ?w1 ?out @ ?new)\<rparr>"
  from assms(2) obtain cfg' df' where
    c: "resolve_config (sys_argv e) = Inr cfg'" "\<not> guard cfg'"
      "csv_source w ?opts (src_path cfg') = Inr df'"
      "write_fault w (out_path cfg') = None"
      "list_ex (\<lambda>c. ?res (fst c) ''ingest_date'')
         (schema (transform ?res (strftime_Ymd (now_utc e)) df'))"
      "final (job e w) =
       w\<lparr>datasets := (datasets w)
            (out_path cfg' := datasets w (out_path cfg') @
               partition_files ?res ''ingest_date''
                 (transform ?res (strftime_Ymd (now_utc e)) df'))\<rparr>"
    by (rule completed_run)
  from c(1) assms(1) have cfg: "cfg' = cfg" by simp
  with c(3) assms(3) have df: "df' = df" by simp
  note g = c(2) [unfolded cfg]
  have f1: "final (job e w) = ?w1"
    using c(6) unfolding cfg df .
  have rd: "csv_source ?w1 ?opts (src_path cfg) = Inr df"
    using assms(3) by simp
  have lx: "list_ex (\<lambda>c. ?res (fst c) ''ingest_date'') (schema ?df2)"
    using c(5) unfolding df .
  have wf: "write_fault ?w1 ?out = None"
    using c(4) unfolding cfg by simp
  have wr: "write_parquet ?res Append ''ingest_date'' ?out ?df2 ?w1 = Inr ?w2"
    using lx wf by (rule write_append)
  have j2: "job e ?w1 =
           \<lparr>outcome = Completed,
            events = [ReadCsv ?opts (src_path cfg),
                      WriteParquet Append ''ingest_date'' ?out ?df2,
                      Print (''Wrote Parquet to '' @ ?out @ '' partition=''
                             @ strftime_Ymd (now_utc e))],
            final = ?w2\<rparr>"
    unfolding job_resolved [OF assms(1)] by (rule job_body_written [OF g rd wr])
  have w1: "written w (job e w) ?out = ?new"
    unfolding written_def f1 by simp
  have done2: "outcome (job e (final (job e w))) = Completed"
    unfolding f1 j2 by simp
  have w2: "written (final (job e w)) (job e (final (job e w))) ?out = ?new"
    unfolding f1 j2 written_def by simp
  have d2: "datasets (final (job e (final (job e w)))) ?out = datasets w ?out @ ?new @ ?new"
    unfolding f1 j2 by simp
  have d1: "datasets (final (job e w)) ?out = datasets w ?out @ ?new"
    unfolding f1 by simp
  have m: "mset (file_rows ?new) = mset (rows ?df2)"
    by (rule file_rows_partition_files)
  have l: "length (rows ?df2) = length (rows df)"
    by (rule rows_transform)
  have ne: "?new \<noteq> [] \<and> datasets w ?out @ ?new @ ?new \<noteq> datasets w ?out @ ?new"
    if "rows df \<noteq> []"
  proof -
    from that l have "rows ?df2 \<noteq> []"
      by (metis length_0_conv)
    then have "?new \<noteq> []"
      by (simp add: partition_files_empty)
    then show ?thesis by simp
  qed
  show ?thesis
    unfolding w1 w2 d2 d1 using done2 m l ne by blast
qed

theorem second_run_appends_duplicates_witness:
  "resolve_config (sys_argv (invocation (job_args []))) = Inr (resolved_args []) \<and>
   outcome (job (invocation (job_args [])) (store patients)) = Completed \<and>
   rows patients \<noteq> [] \<and>
   datasets (final (job (invocation (job_args [])) (store patients))) ''s3://cur/out/'' =
     [patients_file] \<and>
   outcome (job (invocation (job_args []))
              (final (job (invocation (job_args [])) (store patients)))) = Completed \<and>
   datasets (final (job (invocation (job_args []))
                      (final (job (invocation (job_args [])) (store patients)))))
            ''s3://cur/out/'' =
     [patients_file, patients_file]"
proof -
  let ?e = "invocation (job_args [])"
  have r: "resolve_config (sys_argv ?e) = Inr (resolved_args [])"
    by (rule resolve_job_args)
  have c: "outcome (job ?e (store patients)) = Completed"
    by (simp add: first_run)
  have o: "out_path (resolved_args []) = ''s3://cur/out/''"
    by (simp add: out_path_def resolved_args_def)
  have s: "csv_source (store patients) \<lparr>header = True, inferSchema = True\<rparr>
             (src_path (resolved_args [])) = Inr patients"
    by (simp add: src_path_def resolved_args_def store_def)
  have n: "rows patients \<noteq> []"
    by (simp add: patients_def)
  have w: "written (store patients) (job ?e (store patients)) ''s3://cur/out/'' = [patients_file]"
    by (simp add: written_def first_run) (simp add: store_def)
  have d: "datasets (store patients) ''s3://cur/out/'' = []"
    by (simp add: store_def)
  show ?thesis
    using r c n second_run_appends_duplicates [OF r c s]
    by (simp add: o w d) (simp add: first_run)
qed

subsection \<open>The stamped frame\<close>

lemma zip_map_map_zip:
  "zip (map g S) (map h (zip S r)) = map (\<lambda>(c, v). (g c, h (c, v))) (zip S r)"
proof (induction S arbitrary: r)
  case Nil
  then show ?case by simp
next
  case (Cons c S)
  then show ?case by (cases r) simp_all
qed

lemma map_fst_zip_same_length: "length r = length S \<Longrightarrow> map fst (zip S r) = S"
  by (induction S r rule: list_induct2') simp_all

lemma transform_rows:
  "rows (transform res d df) =
     map (\<lambda>r. if list_ex (\<lambda>c. res (fst c) ''ingest_date'') (schema df)
               then map (\<lambda>(c, v). if res (fst c) ''ingest_date'' then Some d else v)
                      (zip (schema df) r)
               else r @ [Some d]) (rows df)"
  by (simp add: transform_def withColumn_def lit_def)

lemma transform_schema:
  "schema (transform res d df) =
     (if list_ex (\<lambda>c. res (fst c) ''ingest_date'') (schema df)
      then map (\<lambda>c. if res (fst c) ''ingest_date'' then (''ingest_date'', StringType) else c)
             (schema df)
      else schema df @ [(''ingest_date'', StringType)])"
  by (simp add: transform_def withColumn_def lit_def)

lemma zip_transform:
  assumes "wf_frame df" and "i < length (rows df)"
  shows "zip (schema (transform res d df)) (rows (transform res d df) ! i) =
           stamped_pairs res d df (rows df ! i)"
proof -
  let ?r = "rows df ! i"
  have len: "length ?r = length (schema df)"
    using assms by (simp add: wf_frame_def list_all_length)
  show ?thesis
  proof (cases "list_ex (\<lambda>c. res (fst c) ''ingest_date'') (schema df)")
    case True
    have "zip (map (\<lambda>c. if res (fst c) ''ingest_date'' then (''ingest_date'', StringType) else c)
                 (schema df))
              (map (\<lambda>(c, v). if res (fst c) ''ingest_date'' then Some d else v)
                 (zip (schema df) ?r)) =
          map (\<lambda>(c, v). if res (fst c) ''ingest_date''
                           then ((''ingest_date'', StringType), Some d) else (c, v))
              (zip (schema df) ?r)"
      unfolding zip_map_map_zip by (rule map_cong) auto
    then show ?thesis
      using True assms(2) by (simp add: transform_rows transform_schema stamped_pairs_def)
  next
    case False
    then show ?thesis
      using assms(2) len by (simp add: transform_rows transform_schema stamped_pairs_def)
  qed
qed

lemma stamped_pairs_named:
  assumes "res ''ingest_date'' ''ingest_date''" and "(c, v) \<in> set (stamped_pairs res d df r)"
  shows "(res (fst c) ''ingest_date'' \<longleftrightarrow> fst c = ''ingest_date'') \<and>
         (fst c = ''ingest_date'' \<longrightarrow> c = (''ingest_date'', StringType) \<and> v = Some d)"
proof (cases "list_ex (\<lambda>c. res (fst c) ''ingest_date'') (schema df)")
  case True
  with assms(2) obtain c0 v0 where
    "(c0, v0) \<in> set (zip (schema df) r)"
    "(c, v) = (if res (fst c0) ''ingest_date''
               then ((''ingest_date'', StringType), Some d) else (c0, v0))"
    by (auto simp: stamped_pairs_def)
  then show ?thesis
    using assms(1) by (cases "res (fst c0) ''ingest_date''") auto
next
  case False
  with assms(2) have "(c, v) \<in> set (zip (schema df) r) \<or> (c, v) = ((''ingest_date'', StringType), Some d)"
    by (auto simp: stamped_pairs_def)
  then show ?thesis
  proof
    assume "(c, v) \<in> set (zip (schema df) r)"
    then have "c \<in> set (schema df)"
      by (rule set_zip_leftD)
    with False have "\<not> res (fst c) ''ingest_date''"
      by (auto simp: list_ex_iff)
    then show ?thesis
      using assms(1) by auto
  next
    assume "(c, v) = ((''ingest_date'', StringType), Some d)"
    then show ?thesis
      using assms(1) by auto
  qed
qed

lemma stamped_pairs_has:
  assumes "length r = length (schema df)"
  shows "\<exists>v. ((''ingest_date'', StringType), v) \<in> set (stamped_pairs res d df r)"
proof (cases "list_ex (\<lambda>c. res (fst c) ''ingest_date'') (schema df)")
  case True
  then obtain c where c: "c \<in> set (schema df)" "res (fst c) ''ingest_date''"
    by (auto simp: list_ex_iff)
  from c(1) have "c \<in> set (map fst (zip (schema df) r))"
    using assms by (simp add: map_fst_zip_same_length)
  then obtain v where "(c, v) \<in> set (zip (schema df) r)"
    by auto
  then have "((''ingest_date'', StringType), Some d) \<in> set (stamped_pairs res d df r)"
    using True c(2) by (force simp: stamped_pairs_def)
  then show ?thesis ..
next
  case False
  then show ?thesis
    by (auto simp: stamped_pairs_def)
qed


lemma find_constant:
  assumes "\<And>c v. (c, v) \<in> set xs \<Longrightarrow> P (c, v) \<Longrightarrow> v = k" and "\<exists>x \<in> set xs. P x"
  shows "(case List.find P xs of Some (c, v) \<Rightarrow> v | None \<Rightarrow> None) = k"
  using assms
proof (induction xs)
  case Nil
  then show ?case by simp
next
  case (Cons x xs)
  show ?case
  proof (cases "P x")
    case True
    then show ?thesis
      using Cons.prems(1) [of "fst x" "snd x"] by (simp add: case_prod_beta)
  next
    case False
    then show ?thesis
      using Cons by auto
  qed
qed

lemma row_of_transform:
  assumes "r' \<in> set (rows (transform res d df))"
  obtains i where "i < length (rows df)" and "r' = rows (transform res d df) ! i"
  using assms by (metis in_set_conv_nth rows_transform)

lemma cells_named_transform:
  assumes "wf_frame df" and "res ''ingest_date'' ''ingest_date''"
    and "r' \<in> set (rows (transform res d df))"
  shows "set (cells_named ''ingest_date'' (transform res d df) r') = {Some d}"
proof -
  from assms(3) obtain i where i: "i < length (rows df)" "r' = rows (transform res d df) ! i"
    by (rule row_of_transform)
  let ?ps = "stamped_pairs res d df (rows df ! i)"
  have z: "zip (schema (transform res d df)) r' = ?ps"
    unfolding i(2) using assms(1) i(1) by (rule zip_transform)
  have len: "length (rows df ! i) = length (schema df)"
    using assms(1) i(1) by (simp add: wf_frame_def list_all_length)
  have "v = Some d" if "(c, v) \<in> set ?ps" and "fst c = ''ingest_date''" for c v
    using stamped_pairs_named [of res c v d df "rows df ! i"] assms(2) that by simp
  then have sub: "set (cells_named ''ingest_date'' (transform res d df) r') \<subseteq> {Some d}"
    unfolding cells_named_def z by auto
  obtain v where v: "((''ingest_date'', StringType), v) \<in> set ?ps"
    using stamped_pairs_has [OF len] by blast
  then have "v \<in> set (cells_named ''ingest_date'' (transform res d df) r')"
    unfolding cells_named_def z by force
  with sub show ?thesis by auto
qed

lemma partition_key_transform:
  assumes "wf_frame df" and "res ''ingest_date'' ''ingest_date''"
    and "r' \<in> set (rows (transform res d df))"
  shows "partition_key res ''ingest_date'' (transform res d df) r' = Some d"
proof -
  from assms(3) obtain i where i: "i < length (rows df)" "r' = rows (transform res d df) ! i"
    by (rule row_of_transform)
  let ?ps = "stamped_pairs res d df (rows df ! i)"
  have z: "zip (schema (transform res d df)) r' = ?ps"
    unfolding i(2) using assms(1) i(1) by (rule zip_transform)
  have len: "length (rows df ! i) = length (schema df)"
    using assms(1) i(1) by (simp add: wf_frame_def list_all_length)
  have a: "v = Some d" if "(c, v) \<in> set ?ps" and "(case (c, v) of (c, v) \<Rightarrow> res (fst c) ''ingest_date'')"
    for c v
    using stamped_pairs_named [of res c v d df "rows df ! i"] assms(2) that by simp
  obtain v where v: "((''ingest_date'', StringType), v) \<in> set ?ps"
    using stamped_pairs_has [OF len] by blast
  then have b: "\<exists>x \<in> set ?ps. (case x of (c, v) \<Rightarrow> res (fst c) ''ingest_date'')"
    using assms(2) by force
  show ?thesis
    unfolding partition_key_def z using a b by (rule find_constant)
qed

lemma remdups_replicate_same: "remdups (replicate n k) = (if n = 0 then [] else [k])"
  by (induction n) auto

lemma filter_stamped_schema:
  assumes "res n n"
  shows "filter (\<lambda>c. \<not> res (fst c) n) (map (\<lambda>c. if res (fst c) n then (n, t) else c) S) =
         filter (\<lambda>c. \<not> res (fst c) n) S"
  using assms by (induction S) auto

lemma filter_stamped_pairs:
  assumes "res n n"
  shows "map snd (filter (\<lambda>(c, v). \<not> res (fst c) n)
                    (map (\<lambda>(c, v). if res (fst c) n then ((n, t), k) else (c, v)) xs)) =
         map snd (filter (\<lambda>(c, v). \<not> res (fst c) n) xs)"
  using assms by (induction xs) auto

lemma partition_files_constant:
  assumes "\<And>r. r \<in> set (rows df) \<Longrightarrow> partition_key res pcol df r = k"
  shows "partition_files res pcol df =
           (if rows df = [] then []
            else [\<lparr>partition_col = pcol, partition_val = k,
                   content = \<lparr>schema = schema df, rows = rows df\<rparr>\<rparr>])"
proof (cases "rows df = []")
  case True
  then show ?thesis by (simp add: partition_files_def)
next
  case False
  have m: "map (partition_key res pcol df) (rows df) = replicate (length (rows df)) k"
    using assms by (simp add: map_replicate_const [symmetric] cong: map_cong)
  have r: "remdups (map (partition_key res pcol df) (rows df)) = [k]"
    unfolding m using False by (simp add: remdups_replicate_same)
  have f: "filter (\<lambda>r. partition_key res pcol df r = k) (rows df) = rows df"
    using assms by (simp add: filter_id_conv)
  show ?thesis
    using False by (simp add: partition_files_def r f)
qed

lemma files_of_transform:
  assumes "wf_frame df" and "res ''ingest_date'' ''ingest_date''"
  shows "partition_files res ''ingest_date'' (transform res d df) =
           (if rows df = [] then []
            else [\<lparr>partition_col = ''ingest_date'', partition_val = Some d,
                   content = transform res d df\<rparr>])"
proof -
  have "partition_files res ''ingest_date'' (transform res d df) =
           (if rows (transform res d df) = [] then []
            else [\<lparr>partition_col = ''ingest_date'', partition_val = Some d,
                   content = \<lparr>schema = schema (transform res d df),
                              rows = rows (transform res d df)\<rparr>\<rparr>])"
    using assms by (intro partition_files_constant partition_key_transform)
  moreover have "rows (transform res d df) = [] \<longleftrightarrow> rows df = []"
    using rows_transform [of res d df] by (metis length_0_conv)
  ultimately show ?thesis by simp
qed

lemma drop_column_transform:
  assumes "wf_frame df" and "res ''ingest_date'' ''ingest_date''"
  shows "drop_column res ''ingest_date'' (transform res d df) =
         drop_column res ''ingest_date'' df"
proof -
  let ?n = "''ingest_date''"
  let ?df2 = "transform res d df"
  have s: "filter (\<lambda>c. \<not> res (fst c) ?n) (schema ?df2) =
           filter (\<lambda>c. \<not> res (fst c) ?n) (schema df)"
    using assms(2) by (simp add: transform_schema filter_stamped_schema)
  have r: "map (\<lambda>r. map snd (filter (\<lambda>(c, v). \<not> res (fst c) ?n) (zip (schema ?df2) r))) (rows ?df2) =
           map (\<lambda>r. map snd (filter (\<lambda>(c, v). \<not> res (fst c) ?n) (zip (schema df) r))) (rows df)"
  proof (rule nth_equalityI)
    show "length (map (\<lambda>r. map snd (filter (\<lambda>(c, v). \<not> res (fst c) ?n) (zip (schema ?df2) r))) (rows ?df2)) =
          length (map (\<lambda>r. map snd (filter (\<lambda>(c, v). \<not> res (fst c) ?n) (zip (schema df) r))) (rows df))"
      by (simp add: rows_transform)
  next
    fix i
    assume "i < length (map (\<lambda>r. map snd (filter (\<lambda>(c, v). \<not> res (fst c) ?n) (zip (schema ?df2) r))) (rows ?df2))"
    then have i: "i < length (rows df)"
      by (simp add: rows_transform)
    have z: "zip (schema ?df2) (rows ?df2 ! i) = stamped_pairs res d df (rows df ! i)"
      using assms(1) i by (rule zip_transform)
    have "map snd (filter (\<lambda>(c, v). \<not> res (fst c) ?n) (stamped_pairs res d df (rows df ! i))) =
          map snd (filter (\<lambda>(c, v). \<not> res (fst c) ?n) (zip (schema df) (rows df ! i)))"
      using assms(2) by (simp add: stamped_pairs_def filter_stamped_pairs)
    then show "map (\<lambda>r. map snd (filter (\<lambda>(c, v). \<not> res (fst c) ?n) (zip (schema ?df2) r))) (rows ?df2) ! i =
          map (\<lambda>r. map snd (filter (\<lambda>(c, v). \<not> res (fst c) ?n) (zip (schema df) r))) (rows df) ! i"
      using i by (simp add: rows_transform z)
  qed
  show ?thesis
    unfolding drop_column_def s r ..
qed


lemma names_other_than_stamp:
  assumes "res n n"
  shows "filter (\<lambda>c. c \<noteq> n) (map (fst \<circ> (\<lambda>c. if res (fst c) n then (n, t) else c)) S) =
         filter (\<lambda>c. \<not> res c n) (map fst S)"
  using assms by (induction S) auto

lemma non_ingest_columns_transform:
  assumes "res ''ingest_date'' ''ingest_date''"
  shows "non_ingest_columns (transform res d df) =
         filter (\<lambda>c. \<not> res c ''ingest_date'') (column_names df)"
proof (cases "list_ex (\<lambda>c. res (fst c) ''ingest_date'') (schema df)")
  case True
  then show ?thesis
    using assms
    by (simp add: non_ingest_columns_def column_names_def transform_schema names_other_than_stamp)
next
  case False
  then have "\<not> res c ''ingest_date'' \<and> c \<noteq> ''ingest_date''" if "c \<in> set (map fst (schema df))" for c
    using that assms by (auto simp: list_ex_iff)
  then have "filter (\<lambda>c. c \<noteq> ''ingest_date'') (map fst (schema df)) = map fst (schema df)"
    and "filter (\<lambda>c. \<not> res c ''ingest_date'') (map fst (schema df)) = map fst (schema df)"
    by (simp_all add: filter_id_conv)
  then show ?thesis
    using False by (simp add: non_ingest_columns_def column_names_def transform_schema)
qed

lemma wf_transform:
  assumes "wf_frame df" and "r' \<in> set (rows (transform res d df))"
  shows "length r' = length (schema (transform res d df))"
proof -
  from assms(2) have
    "r' \<in> (\<lambda>r. if list_ex (\<lambda>c. res (fst c) ''ingest_date'') (schema df)
              then map (\<lambda>(c, v). if res (fst c) ''ingest_date'' then Some d else v)
                     (zip (schema df) r)
              else r @ [Some d]) ` set (rows df)"
    unfolding transform_rows set_map .
  then obtain r where "r \<in> set (rows df)" and
    r': "r' = (if list_ex (\<lambda>c. res (fst c) ''ingest_date'') (schema df)
              then map (\<lambda>(c, v). if res (fst c) ''ingest_date'' then Some d else v)
                     (zip (schema df) r)
              else r @ [Some d])"
    by (rule imageE)
  then have "length r = length (schema df)"
    using assms(1) by (simp add: wf_frame_def list_all_iff)
  then show ?thesis
    unfolding r' by (simp add: transform_schema)
qed

subsection \<open>The ingest date of the output rows\<close>

text \<open>
  Claim C2. For every successful run (started at a clock that shows a year of four
  digits, on a source frame whose rows have one cell for each column, in a session that
  takes a column name to be the same as itself), every file the run wrote lies in the
  partition of one and the same text, every row of these files holds that text, and
  nothing else, under ingest_date, and the files hold as many rows as the source. That
  text is the UTC date of the clock read at line 26 in the form YYYY-MM-DD: ten
  characters which, read as four digits, a dash, two digits, a dash and two digits,
  give that clock's year, month and day.
\<close>

theorem every_output_row_has_the_ingest_date:
  assumes "resolve_config (sys_argv e) = Inr cfg" and "outcome (job e w) = Completed"
    and "csv_source w \<lparr>header = True, inferSchema = True\<rparr> (src_path cfg) = Inr df"
    and "wf_frame df" and "session_resolver e ''ingest_date'' ''ingest_date''"
    and "valid_clock (now_utc e)"
  shows "(\<exists>date.
            read_Ymd date = Some (year (now_utc e), month (now_utc e), day (now_utc e)) \<and>
            length date = 10 \<and>
            (\<forall>f \<in> set (written w (job e w) (out_path cfg)).
               partition_col f = ''ingest_date'' \<and>
               partition_val f = Some date \<and>
               (\<forall>r \<in> set (rows (content f)).
                  set (cells_named ''ingest_date'' (content f) r) = {Some date}))) \<and>
         length (file_rows (written w (job e w) (out_path cfg))) = length (rows df)"
proof -
  let ?res = "session_resolver e"
  let ?d = "strftime_Ymd (now_utc e)"
  let ?df2 = "transform ?res ?d df"
  have wr: "written w (job e w) (out_path cfg) =
              (if rows df = [] then []
               else [\<lparr>partition_col = ''ingest_date'', partition_val = Some ?d, content = ?df2\<rparr>])"
    unfolding written_completed [OF assms(1,2,3), of "out_path cfg"]
    using files_of_transform [of df "session_resolver e" "strftime_Ymd (now_utc e)"] assms(4,5)
    by simp
  have cells: "set (cells_named ''ingest_date'' ?df2 r) = {Some ?d}" if "r \<in> set (rows ?df2)" for r
    using assms(4,5) that by (rule cells_named_transform)
  have len: "length (file_rows (written w (job e w) (out_path cfg))) = length (rows df)"
    unfolding wr by (simp add: file_rows_def rows_transform)
  have rd: "read_Ymd ?d = Some (year (now_utc e), month (now_utc e), day (now_utc e))"
    using assms(6) by (rule read_strftime)
  have ten: "length ?d = 10"
    unfolding strftime_Ymd_valid [OF assms(6)] by simp
  have "\<forall>f \<in> set (written w (job e w) (out_path cfg)).
               partition_col f = ''ingest_date'' \<and>
               partition_val f = Some ?d \<and>
               (\<forall>r \<in> set (rows (content f)).
                  set (cells_named ''ingest_date'' (content f) r) = {Some ?d})"
    unfolding wr using cells by simp
  with rd ten len show ?thesis
    by blast
qed

theorem every_output_row_has_the_ingest_date_witness:
  "resolve_config (sys_argv (invocation (job_args []))) = Inr (resolved_args []) \<and>
   outcome (job (invocation (job_args [])) (store patients)) = Completed \<and>
   wf_frame patients \<and>
   valid_clock (now_utc (invocation (job_args []))) \<and>
   now_utc (invocation (job_args [])) = \<lparr>year = 2026, month = 11, day = 3\<rparr> \<and>
   written (store patients) (job (invocation (job_args [])) (store patients)) ''s3://cur/out/'' =
     [patients_file] \<and>
   partition_val patients_file = Some ''2026-11-03'' \<and>
   read_Ymd ''2026-11-03'' = Some (2026, 11, 3) \<and>
   cells_named ''ingest_date'' (content patients_file) [Some ''1'', Some ''ann'', Some ''2026-11-03''] =
     [Some ''2026-11-03''] \<and>
   cells_named ''ingest_date'' (content patients_file) [Some ''2'', Some ''bob'', Some ''2026-11-03''] =
     [Some ''2026-11-03''] \<and>
   (\<exists>date. read_Ymd date = Some (2026, 11, 3) \<and> partition_val patients_file = Some date)"
proof -
  let ?e = "invocation (job_args [])"
  have r: "resolve_config (sys_argv ?e) = Inr (resolved_args [])"
    by (rule resolve_job_args)
  have c: "outcome (job ?e (store patients)) = Completed"
    by (simp add: first_run)
  have s: "csv_source (store patients) \<lparr>header = True, inferSchema = True\<rparr>
             (src_path (resolved_args [])) = Inr patients"
    by (simp add: src_path_def resolved_args_def store_def)
  have wf: "wf_frame patients"
    by (simp add: wf_frame_def patients_def)
  have x: "session_resolver ?e ''ingest_date'' ''ingest_date''"
    by (simp add: invocation_def)
  have v: "valid_clock (now_utc ?e)"
    by (simp add: invocation_def valid_clock_def)
  have n: "now_utc ?e = \<lparr>year = 2026, month = 11, day = 3\<rparr>"
    by (simp add: invocation_def)
  have wr: "written (store patients) (job ?e (store patients)) ''s3://cur/out/'' = [patients_file]"
    by (simp add: written_def first_run) (simp add: store_def)
  have o: "out_path (resolved_args []) = ''s3://cur/out/''"
    by (simp add: out_path_def resolved_args_def)
  have p: "partition_val patients_file = Some ''2026-11-03''"
    by (simp add: patients_file_def)
  have rd: "read_Ymd ''2026-11-03'' = Some (2026, 11, 3)"
    by (simp add: read_Ymd_def digit_val_def)
  have cn: "cells_named ''ingest_date'' (content patients_file)
              [Some ''1'', Some ''ann'', Some ''2026-11-03''] = [Some ''2026-11-03'']"
    "cells_named ''ingest_date'' (content patients_file)
              [Some ''2'', Some ''bob'', Some ''2026-11-03''] = [Some ''2026-11-03'']"
    by (simp_all add: patients_file_def cells_named_def)
  from every_output_row_has_the_ingest_date [OF r c s wf x v]
  obtain date where
    d: "read_Ymd date = Some (year (now_utc ?e), month (now_utc ?e), day (now_utc ?e))"
      "\<forall>f \<in> set (written (store patients) (job ?e (store patients)) (out_path (resolved_args []))).
         partition_col f = ''ingest_date'' \<and> partition_val f = Some date \<and>
         (\<forall>r \<in> set (rows (content f)).
            set (cells_named ''ingest_date'' (content f) r) = {Some date})"
    by blast
  from d(2) have "partition_val patients_file = Some date"
    unfolding o wr by simp
  moreover from d(1) have "read_Ymd date = Some (2026, 11, 3)"
    unfolding n by simp
  ultimately have ex: "\<exists>date. read_Ymd date = Some (2026, 11, 3) \<and>
      partition_val patients_file = Some date"
    by blast
  from r c wf v n wr p rd cn ex show ?thesis
    by blast
qed

subsection \<open>A source that already has an ingest_date column, run\<close>

lemma stamped_dated_source: "transform (=) ''2026-11-03'' dated_source = content dated_file"
  by (simp add: transform_def withColumn_def lit_def dated_source_def dated_file_def)

lemma wf_dated_source: "wf_frame dated_source"
  by (simp add: wf_frame_def dated_source_def)

lemma dated_run:
  "outcome (job (invocation (job_args [])) (store dated_source)) = Completed \<and>
   written (store dated_source) (job (invocation (job_args [])) (store dated_source))
     ''s3://cur/out/'' = [dated_file]"
proof -
  let ?e = "invocation (job_args [])"
  let ?cfg = "resolved_args []"
  let ?w = "store dated_source"
  have r: "resolve_config (sys_argv ?e) = Inr ?cfg"
    by (rule resolve_job_args)
  have g: "\<not> guard ?cfg"
    by (simp add: guard_def resolved_args_def)
  have o: "out_path ?cfg = ''s3://cur/out/''"
    by (simp add: out_path_def resolved_args_def)
  have res: "session_resolver ?e = (=)"
    by (simp add: invocation_def)
  have rd: "csv_source ?w \<lparr>header = True, inferSchema = True\<rparr> (src_path ?cfg) = Inr dated_source"
    by (simp add: src_path_def resolved_args_def store_def)
  have lx: "list_ex (\<lambda>c. fst c = ''ingest_date'') (schema (content dated_file))"
    by (simp add: dated_file_def)
  have wf: "write_fault ?w ''s3://cur/out/'' = None"
    by (simp add: store_def)
  have fs: "partition_files (=) ''ingest_date'' (content dated_file) = [dated_file]"
    by (simp add: partition_files_def partition_key_def dated_file_def)
  have wr: "write_parquet (session_resolver ?e) Append ''ingest_date'' (out_path ?cfg)
         (transform (session_resolver ?e) (strftime_Ymd (now_utc ?e)) dated_source) ?w =
        Inr (?w\<lparr>datasets := (datasets ?w)
                 (''s3://cur/out/'' := datasets ?w ''s3://cur/out/'' @ [dated_file])\<rparr>)"
    unfolding res today stamped_dated_source o
    using write_append [of "(=)" "''ingest_date''" "content dated_file" ?w "''s3://cur/out/''"]
      lx wf
    by (simp add: fs)
  show ?thesis
    unfolding job_resolved [OF r] job_body_written [OF g rd wr]
    by (simp add: written_def)
qed

text \<open>The same source with the column in capitals, in a session that compares names up to
  letter case.\<close>

lemma resolve_job_args_ci:
  "resolve_config (sys_argv (invocation_ci (job_args key))) = Inr (resolved_args key)"
  unfolding resolved_args_def
  by (rule resolve_config_supplied) (simp_all add: job_args_def invocation_ci_def)

lemma today_ci: "strftime_Ymd (now_utc (invocation_ci a)) = ''2026-11-03''"
  by (simp add: invocation_ci_def strftime_Ymd_def pad2_def decimal.simps digit_def)

lemma same_name_ci_capitals: "same_name_ci ''INGEST_DATE'' ''ingest_date''"
  by (simp add: same_name_ci_def lower_def lower_char_def)

lemma same_name_ci_id: "\<not> same_name_ci ''id'' ''ingest_date''"
  by (simp add: same_name_ci_def lower_def lower_char_def)

lemma same_name_ci_refl: "same_name_ci a a"
  by (simp add: same_name_ci_def)

lemma stamped_shouting_source:
  "transform same_name_ci ''2026-11-03'' shouting_source = content dated_file"
  by (simp add: transform_def withColumn_def lit_def shouting_source_def dated_file_def
      same_name_ci_capitals same_name_ci_id)

lemma wf_shouting_source: "wf_frame shouting_source"
  by (simp add: wf_frame_def shouting_source_def)

lemma shouting_run:
  "outcome (job (invocation_ci (job_args [])) (store shouting_source)) = Completed \<and>
   written (store shouting_source) (job (invocation_ci (job_args [])) (store shouting_source))
     ''s3://cur/out/'' = [dated_file]"
proof -
  let ?e = "invocation_ci (job_args [])"
  let ?cfg = "resolved_args []"
  let ?w = "store shouting_source"
  have r: "resolve_config (sys_argv ?e) = Inr ?cfg"
    by (rule resolve_job_args_ci)
  have g: "\<not> guard ?cfg"
    by (simp add: guard_def resolved_args_def)
  have o: "out_path ?cfg = ''s3://cur/out/''"
    by (simp add: out_path_def resolved_args_def)
  have res: "session_resolver ?e = same_name_ci"
    by (simp add: invocation_ci_def)
  have rd: "csv_source ?w \<lparr>header = True, inferSchema = True\<rparr> (src_path ?cfg) =
              Inr shouting_source"
    by (simp add: src_path_def resolved_args_def store_def)
  have lx: "list_ex (\<lambda>c. same_name_ci (fst c) ''ingest_date'') (schema (content dated_file))"
    by (simp add: dated_file_def same_name_ci_refl)
  have wf: "write_fault ?w ''s3://cur/out/'' = None"
    by (simp add: store_def)
  have fs: "partition_files same_name_ci ''ingest_date'' (content dated_file) = [dated_file]"
    by (simp add: partition_files_def partition_key_def dated_file_def same_name_ci_refl
        same_name_ci_id)
  have wr: "write_parquet (session_resolver ?e) Append ''ingest_date'' (out_path ?cfg)
         (transform (session_resolver ?e) (strftime_Ymd (now_utc ?e)) shouting_source) ?w =
        Inr (?w\<lparr>datasets := (datasets ?w)
                 (''s3://cur/out/'' := datasets ?w ''s3://cur/out/'' @ [dated_file])\<rparr>)"
    unfolding res today_ci stamped_shouting_source o
    using write_append [of same_name_ci "''ingest_date''" "content dated_file" ?w "''s3://cur/out/''"]
      lx wf
    by (simp add: fs)
  show ?thesis
    unfolding job_resolved [OF r] job_body_written [OF g rd wr]
    by (simp add: written_def)
qed

subsection \<open>The other columns\<close>

text \<open>
  Claim C3, as amended. For every successful run (on a source frame whose rows have one
  cell for each column, in a session that takes a column name to be the same as itself),
  the columns of the output other than ingest_date are the columns of the source header
  other than those that the session's name resolution takes for ingest_date (under
  exact comparison the column ingest_date itself, under comparison up to letter case
  also INGEST_DATE and the like): without these columns the written frame is the source
  frame, with the same column names and types in the same order and the same cells in
  every row, so none of the remaining columns is dropped, renamed, filtered or coerced;
  and a source with a row gives an output. The concrete run below is in a session that
  compares up to letter case, on the header \<^verbatim>\<open>id,INGEST_DATE\<close>.
\<close>

theorem other_columns_pass_unchanged:
  assumes "resolve_config (sys_argv e) = Inr cfg" and "outcome (job e w) = Completed"
    and "csv_source w \<lparr>header = True, inferSchema = True\<rparr> (src_path cfg) = Inr df"
    and "wf_frame df" and "session_resolver e ''ingest_date'' ''ingest_date''"
  shows "(\<forall>f \<in> set (written w (job e w) (out_path cfg)).
            set (non_ingest_columns (content f)) =
              set (filter (\<lambda>c. \<not> session_resolver e c ''ingest_date'') (column_names df)) \<and>
            drop_column (session_resolver e) ''ingest_date'' (content f) =
              drop_column (session_resolver e) ''ingest_date'' df) \<and>
         (rows df \<noteq> [] \<longrightarrow> written w (job e w) (out_path cfg) \<noteq> [])"
proof -
  let ?res = "session_resolver e"
  let ?d = "strftime_Ymd (now_utc e)"
  let ?df2 = "transform ?res ?d df"
  have wr: "written w (job e w) (out_path cfg) =
              (if rows df = [] then []
               else [\<lparr>partition_col = ''ingest_date'', partition_val = Some ?d, content = ?df2\<rparr>])"
    unfolding written_completed [OF assms(1,2,3), of "out_path cfg"]
    using files_of_transform [of df ?res ?d] assms(4,5)
    by simp
  have n: "non_ingest_columns ?df2 = filter (\<lambda>c. \<not> ?res c ''ingest_date'') (column_names df)"
    using assms(5) by (rule non_ingest_columns_transform)
  have dc: "drop_column ?res ''ingest_date'' ?df2 = drop_column ?res ''ingest_date'' df"
    using assms(4,5) by (rule drop_column_transform)
  from n dc show ?thesis
    unfolding wr by simp
qed

theorem other_columns_pass_unchanged_witness:
  "resolve_config (sys_argv (invocation_ci (job_args []))) = Inr (resolved_args []) \<and>
   outcome (job (invocation_ci (job_args [])) (store shouting_source)) = Completed \<and>
   wf_frame shouting_source \<and>
   session_resolver (invocation_ci (job_args [])) = same_name_ci \<and>
   same_name_ci ''INGEST_DATE'' ''ingest_date'' \<and>
   column_names shouting_source = [''id'', ''INGEST_DATE''] \<and>
   written (store shouting_source) (job (invocation_ci (job_args [])) (store shouting_source))
     ''s3://cur/out/'' = [dated_file] \<and>
   column_names (content dated_file) = [''id'', ''ingest_date''] \<and>
   set (non_ingest_columns (content dated_file)) = {''id''} \<and>
   drop_column same_name_ci ''ingest_date'' (content dated_file) =
     \<lparr>schema = [(''id'', IntegerType)], rows = [[Some ''1'']]\<rparr> \<and>
   drop_column same_name_ci ''ingest_date'' shouting_source =
     \<lparr>schema = [(''id'', IntegerType)], rows = [[Some ''1'']]\<rparr>"
proof -
  let ?e = "invocation_ci (job_args [])"
  have r: "resolve_config (sys_argv ?e) = Inr (resolved_args [])"
    by (rule resolve_job_args_ci)
  have c: "outcome (job ?e (store shouting_source)) = Completed"
    using shouting_run by simp
  have wr: "written (store shouting_source) (job ?e (store shouting_source)) ''s3://cur/out/'' =
              [dated_file]"
    using shouting_run by simp
  have s: "csv_source (store shouting_source) \<lparr>header = True, inferSchema = True\<rparr>
             (src_path (resolved_args [])) = Inr shouting_source"
    by (simp add: src_path_def resolved_args_def store_def)
  have q: "session_resolver ?e = same_name_ci"
    by (simp add: invocation_ci_def)
  have x: "session_resolver ?e ''ingest_date'' ''ingest_date''"
    unfolding q by (rule same_name_ci_refl)
  have o: "out_path (resolved_args []) = ''s3://cur/out/''"
    by (simp add: out_path_def resolved_args_def)
  have cs: "column_names shouting_source = [''id'', ''INGEST_DATE'']"
    by (simp add: column_names_def shouting_source_def)
  have cd: "column_names (content dated_file) = [''id'', ''ingest_date'']"
    by (simp add: column_names_def dated_file_def)
  have v: "drop_column same_name_ci ''ingest_date'' shouting_source =
             \<lparr>schema = [(''id'', IntegerType)], rows = [[Some ''1'']]\<rparr>"
    by (simp add: drop_column_def shouting_source_def same_name_ci_capitals same_name_ci_id)
  show ?thesis
    using r c wf_shouting_source q same_name_ci_capitals cs wr cd
      other_columns_pass_unchanged [OF r c s wf_shouting_source x]
    by (simp add: o q v same_name_ci_capitals same_name_ci_id)
qed

text \<open>
  The claim as it is written equates the output's columns other than ingest_date with
  all the columns of the source header. For the source with the header
  \<^verbatim>\<open>id,ingest_date\<close> the run succeeds, the output's columns other than
  ingest_date are \<^verbatim>\<open>id\<close> alone, and the header names two columns.
\<close>

theorem ingest_date_column_of_the_source_is_not_kept:
  "outcome (job (invocation (job_args [])) (store dated_source)) = Completed \<and>
   written (store dated_source) (job (invocation (job_args [])) (store dated_source))
     ''s3://cur/out/'' = [dated_file] \<and>
   set (column_names dated_source) = {''id'', ''ingest_date''} \<and>
   set (non_ingest_columns (content dated_file)) = {''id''} \<and>
   set (non_ingest_columns (content dated_file)) \<noteq> set (column_names dated_source)"
proof -
  have a: "set (column_names dated_source) = {''id'', ''ingest_date''}"
    by (simp add: column_names_def dated_source_def)
  have b: "set (non_ingest_columns (content dated_file)) = {''id''}"
    by (simp add: non_ingest_columns_def column_names_def dated_file_def)
  have "''ingest_date'' \<in> set (column_names dated_source)"
    unfolding a by simp
  moreover have "''ingest_date'' \<notin> set (non_ingest_columns (content dated_file))"
    unfolding b by simp
  ultimately have "set (non_ingest_columns (content dated_file)) \<noteq> set (column_names dated_source)"
    by blast
  with a b dated_run show ?thesis
    by simp
qed

subsection \<open>A source column named ingest_date\<close>

text \<open>
  Claim C10. When the source frame has a column named ingest_date (its rows have one cell
  for each column, the session takes a column name to be the same as itself) and the
  run gets past the guard to a readable source and a writable destination, the run
  completes rather than fails; the frame it writes has the source's columns in their
  places, the one named ingest_date among them, and no further column; every row is as
  long as the source's and holds the run's date, and nothing else, under ingest_date;
  and every other cell is the source's. So the source's own ingest_date values are not
  in the output.
\<close>

theorem existing_ingest_date_column_is_replaced:
  assumes "resolve_config (sys_argv e) = Inr cfg"
    and "OBJ_KEY cfg = [] \<or> is_csv_key (OBJ_KEY cfg)"
    and "csv_source w \<lparr>header = True, inferSchema = True\<rparr> (src_path cfg) = Inr df"
    and "write_fault w (out_path cfg) = None"
    and "wf_frame df" and "session_resolver e ''ingest_date'' ''ingest_date''"
    and "''ingest_date'' \<in> set (column_names df)"
  shows "outcome (job e w) = Completed \<and>
         written w (job e w) (out_path cfg) =
           (if rows df = [] then []
            else [\<lparr>partition_col = ''ingest_date'',
                   partition_val = Some (strftime_Ymd (now_utc e)),
                   content = transform (session_resolver e) (strftime_Ymd (now_utc e)) df\<rparr>]) \<and>
         column_names (transform (session_resolver e) (strftime_Ymd (now_utc e)) df) =
           map (\<lambda>c. if session_resolver e c ''ingest_date'' then ''ingest_date'' else c)
             (column_names df) \<and>
         (\<forall>r \<in> set (rows (transform (session_resolver e) (strftime_Ymd (now_utc e)) df)).
            length r = length (schema df) \<and>
            set (cells_named ''ingest_date''
                   (transform (session_resolver e) (strftime_Ymd (now_utc e)) df) r) =
              {Some (strftime_Ymd (now_utc e))}) \<and>
         drop_column (session_resolver e) ''ingest_date''
             (transform (session_resolver e) (strftime_Ymd (now_utc e)) df) =
           drop_column (session_resolver e) ''ingest_date'' df"
proof -
  let ?opts = "\<lparr>header = True, inferSchema = True\<rparr>"
  let ?res = "session_resolver e"
  let ?d = "strftime_Ymd (now_utc e)"
  let ?df2 = "transform ?res ?d df"
  have g: "\<not> guard cfg"
    using assms(2) by (auto simp: guard_iff)
  have lx: "list_ex (\<lambda>c. ?res (fst c) ''ingest_date'') (schema df)"
    using assms(6,7) by (force simp: column_names_def list_ex_iff)
  have lx2: "list_ex (\<lambda>c. ?res (fst c) ''ingest_date'') (schema ?df2)"
    unfolding transform_def using assms(6) by (rule withColumn_has_column)
  have wr: "write_parquet ?res Append ''ingest_date'' (out_path cfg) ?df2 w =
        Inr (w\<lparr>datasets := (datasets w)(out_path cfg := datasets w (out_path cfg) @
               partition_files ?res ''ingest_date'' ?df2)\<rparr>)"
    using lx2 assms(4) by (rule write_append)
  have j: "job e w =
           \<lparr>outcome = Completed,
            events = [ReadCsv ?opts (src_path cfg),
                      WriteParquet Append ''ingest_date'' (out_path cfg) ?df2,
                      Print (''Wrote Parquet to '' @ out_path cfg @ '' partition='' @ ?d)],
            final = w\<lparr>datasets := (datasets w)(out_path cfg := datasets w (out_path cfg) @
               partition_files ?res ''ingest_date'' ?df2)\<rparr>\<rparr>"
    unfolding job_resolved [OF assms(1)] by (rule job_body_written [OF g assms(3) wr])
  have c: "outcome (job e w) = Completed"
    unfolding j by simp
  have files: "written w (job e w) (out_path cfg) =
           (if rows df = [] then []
            else [\<lparr>partition_col = ''ingest_date'', partition_val = Some ?d, content = ?df2\<rparr>])"
    unfolding written_completed [OF assms(1) c assms(3), of "out_path cfg"]
    using files_of_transform [of df ?res ?d] assms(5,6)
    by simp
  have names: "column_names ?df2 =
      map (\<lambda>c. if ?res c ''ingest_date'' then ''ingest_date'' else c) (column_names df)"
    using lx by (simp add: column_names_def transform_schema comp_def if_distrib cong: if_cong)
  have sl: "length (schema ?df2) = length (schema df)"
    using lx by (simp add: transform_schema)
  have row: "length r = length (schema df) \<and> set (cells_named ''ingest_date'' ?df2 r) = {Some ?d}"
    if "r \<in> set (rows ?df2)" for r
    using wf_transform [OF assms(5) that] cells_named_transform [OF assms(5,6) that] sl
    by simp
  have dc: "drop_column ?res ''ingest_date'' ?df2 = drop_column ?res ''ingest_date'' df"
    using assms(5,6) by (rule drop_column_transform)
  from c files names row dc show ?thesis
    by blast
qed

theorem existing_ingest_date_column_is_replaced_witness:
  "resolve_config (sys_argv (invocation (job_args []))) = Inr (resolved_args []) \<and>
   csv_source (store dated_source) \<lparr>header = True, inferSchema = True\<rparr> ''s3://raw/in/'' =
     Inr dated_source \<and>
   wf_frame dated_source \<and>
   ''ingest_date'' \<in> set (column_names dated_source) \<and>
   rows dated_source = [[Some ''1'', Some ''1999-01-01'']] \<and>
   outcome (job (invocation (job_args [])) (store dated_source)) = Completed \<and>
   written (store dated_source) (job (invocation (job_args [])) (store dated_source))
     ''s3://cur/out/'' = [dated_file] \<and>
   column_names (content dated_file) = [''id'', ''ingest_date''] \<and>
   rows (content dated_file) = [[Some ''1'', Some ''2026-11-03'']]"
proof -
  let ?e = "invocation (job_args [])"
  let ?cfg = "resolved_args []"
  have r: "resolve_config (sys_argv ?e) = Inr ?cfg"
    by (rule resolve_job_args)
  have k: "OBJ_KEY ?cfg = [] \<or> is_csv_key (OBJ_KEY ?cfg)"
    by (simp add: resolved_args_def)
  have sp: "src_path ?cfg = ''s3://raw/in/''" and o: "out_path ?cfg = ''s3://cur/out/''"
    by (simp_all add: src_path_def out_path_def resolved_args_def)
  have s: "csv_source (store dated_source) \<lparr>header = True, inferSchema = True\<rparr>
             (src_path ?cfg) = Inr dated_source"
    unfolding sp by (simp add: store_def)
  have f: "write_fault (store dated_source) (out_path ?cfg) = None"
    by (simp add: store_def)
  have x: "session_resolver ?e ''ingest_date'' ''ingest_date''"
    by (simp add: invocation_def)
  have q: "session_resolver ?e = (=)"
    by (simp add: invocation_def)
  have m: "''ingest_date'' \<in> set (column_names dated_source)"
    by (simp add: column_names_def dated_source_def)
  have rs: "rows dated_source = [[Some ''1'', Some ''1999-01-01'']]"
    by (simp add: dated_source_def)
  have cf: "column_names (content dated_file) = [''id'', ''ingest_date'']"
    "rows (content dated_file) = [[Some ''1'', Some ''2026-11-03'']]"
    by (simp_all add: column_names_def dated_file_def)
  have df: "\<lparr>partition_col = ''ingest_date'', partition_val = Some ''2026-11-03'',
             content = content dated_file\<rparr> = dated_file"
    by (simp add: dated_file_def)
  show ?thesis
    using r s m rs cf wf_dated_source
      existing_ingest_date_column_is_replaced [OF r k s f wf_dated_source x m]
    by (simp add: sp o q today stamped_dated_source df)
qed

end
